theory Spec2Isabelle
  imports Complex_Main "HOL-Library.Char_ord" "HOL-Library.List_Lexorder"
    "HOL-Library.Product_Lexorder"
begin

chapter \<open>The timelapse daemon of \<^verbatim>\<open>timelapse.py\<close>\<close>

text \<open>
  The program is a single Python module: a capture loop (\<^verbatim>\<open>TimelapseDaemon\<close>) that stores one
  frame per cycle under a per-day directory, a finalizer that runs in a thread of its own at
  every change of date (ffmpeg encode, Telegram delivery, merge into \<^verbatim>\<open>master.mp4\<close>), and a
  \<^verbatim>\<open>__main__\<close> block that starts both. The embedding below follows the module top to bottom.
  Everything outside the module is an explicit input: the readings of \<^verbatim>\<open>datetime.date.today()\<close>,
  the results of \<^verbatim>\<open>cap.read()\<close> and \<^verbatim>\<open>cv2.imwrite\<close>, the exit status and output of every
  subprocess, and the outcome of \<^verbatim>\<open>bot.send_video\<close>. The file system is a map from paths to
  contents; logging, thread starts, sleeps and external calls are recorded in an event list,
  in program order.
\<close>

section \<open>Paths, dates and formatted numbers\<close>

text \<open>A \<^verbatim>\<open>pathlib.Path\<close> is the list of its components; \<^verbatim>\<open>p / name\<close> appends one.\<close>

type_synonym path = "string list"

type_synonym bytes = string

text \<open>\<^verbatim>\<open>datetime.date\<close>: year, month, day. Python compares dates field by field.\<close>

datatype date = Date (year: nat) (month: nat) (day: nat)

definition digit_char :: "nat \<Rightarrow> char" where
  "digit_char k = ''0123456789'' ! k"

text \<open>\<^verbatim>\<open>str(n)\<close> for a non-negative integer.\<close>

fun digits :: "nat \<Rightarrow> string" where
  "digits n = (if n < 10 then [digit_char n] else digits (n div 10) @ [digit_char (n mod 10)])"

declare digits.simps [simp del]

definition zfill :: "nat \<Rightarrow> string \<Rightarrow> string" where
  "zfill w s = replicate (w - length s) (CHR ''0'') @ s"

text \<open>
  The format specification \<^verbatim>\<open>0wd\<close> on a non-negative integer: the decimal digits, padded
  with zeros on the left up to width \<open>w\<close>. The width is a minimum: a longer number is
  printed in full.
\<close>

definition fmt_0d :: "nat \<Rightarrow> nat \<Rightarrow> string" where
  "fmt_0d w n = zfill w (digits n)"

text \<open>\<^verbatim>\<open>date.isoformat()\<close>, that is \<^verbatim>\<open>"%04d-%02d-%02d" % (year, month, day)\<close>.\<close>

definition isoformat :: "date \<Rightarrow> string" where
  "isoformat d = fmt_0d 4 (year d) @ ''-'' @ fmt_0d 2 (month d) @ ''-'' @ fmt_0d 2 (day d)"

text \<open>\<^verbatim>\<open>f"{seq:06d}.jpg"\<close>, the file name of frame number \<open>n\<close>.\<close>

definition frame_name :: "nat \<Rightarrow> string" where
  "frame_name n = fmt_0d 6 n @ ''.jpg''"

text \<open>\<^verbatim>\<open>str(path)\<close> for an absolute path, used in log lines only.\<close>

definition path_str :: "path \<Rightarrow> string" where
  "path_str p = concat (map (\<lambda>c. ''/'' @ c) p)"

text \<open>
  \<^verbatim>\<open>PurePath.suffix\<close> and \<^verbatim>\<open>PurePath.with_suffix\<close>: the suffix of a name starts at its last
  dot, unless that dot is the first or the last character; \<^verbatim>\<open>with_suffix\<close> replaces it, or
  appends when there is none, and raises \<^verbatim>\<open>ValueError\<close> on an empty name (\<open>None\<close> here).
\<close>

definition rfind_dot :: "string \<Rightarrow> int" where
  "rfind_dot name =
     (if CHR ''.'' \<in> set name
      then int (length name) - 1 - int (length (takeWhile (\<lambda>c. c \<noteq> CHR ''.'') (rev name)))
      else - 1)"

definition py_suffix :: "string \<Rightarrow> string" where
  "py_suffix name =
     (let i = rfind_dot name
      in if 0 < i \<and> i < int (length name) - 1 then drop (nat i) name else [])"

definition with_suffix :: "path \<Rightarrow> string \<Rightarrow> path option" where
  "with_suffix p suffix =
     (if p = [] \<or> last p = [] then None
      else let name = last p; old_suffix = py_suffix name
           in Some (butlast p @
                [(if old_suffix = [] then name
                  else take (length name - length old_suffix) name) @ suffix]))"

section \<open>Configuration\<close>

text \<open>
  The module-level \<^verbatim>\<open>DEFAULTS\<close> dictionary, read once from the environment. Only the entries
  that reach the control flow are kept; frame size, codec, preset and camera index are
  passed through to OpenCV and ffmpeg unchanged.
\<close>

record config =
  BASE_DIR :: path
  CAPTURE_INTERVAL_SECONDS :: int
  DAILY_FPS :: int
  TELEGRAM_BOT_TOKEN :: string
  TELEGRAM_CHAT_ID :: string
  MAX_TELEGRAM_MB :: int

definition VIDEOS_DIR :: "config \<Rightarrow> path" where
  "VIDEOS_DIR cfg = BASE_DIR cfg @ [''videos'']"

definition IMAGES_DIR :: "config \<Rightarrow> path" where
  "IMAGES_DIR cfg = BASE_DIR cfg @ [''images'']"

text \<open>\<^verbatim>\<open>IMAGES_DIR / day.isoformat()\<close>, the directory of a day's frames.\<close>

definition day_dir :: "config \<Rightarrow> date \<Rightarrow> path" where
  "day_dir cfg d = IMAGES_DIR cfg @ [isoformat d]"

section \<open>The world outside the interpreter\<close>

datatype error =
    CameraNotAccessible
  | Cv2Error
  | CalledProcessError
  | FileNotFoundError
  | ValueError
  | TelegramError

text \<open>The four command lines the module runs with \<^verbatim>\<open>subprocess.run(cmd, check=True)\<close>.\<close>

datatype cmd =
    FfmpegImages path int path
  | FfmpegToTs path path
  | FfmpegConcat "path list" path
  | Cp path path

fun cmd_output :: "cmd \<Rightarrow> path" where
  "cmd_output (FfmpegImages frames_dir fps out_mp4) = out_mp4"
| "cmd_output (FfmpegToTs v ts) = ts"
| "cmd_output (FfmpegConcat ts_files outpath) = outpath"
| "cmd_output (Cp src dst) = dst"

text \<open>
  What a subprocess did: exit status 0 with these bytes at its output path, or a non-zero
  status, having left a partial output behind or none.
\<close>

datatype proc_result = Exit0 bytes | ExitFail "bytes option"

datatype event =
    Finalize date path
  | Imwrite path bool
  | Sleep
  | Ran cmd
  | SendVideo path string
  | LogInfo string
  | LogWarning string
  | LogException error

record world =
  files :: "path \<rightharpoonup> bytes"
  dirs :: "path set"
  events :: "event list"

text \<open>
  The external programs and the Telegram transport. A subprocess is a function of the files
  it finds and of its command line; it writes to its output path only.
\<close>

record env =
  proc :: "(path \<rightharpoonup> bytes) \<Rightarrow> cmd \<Rightarrow> proc_result"
  send_video :: "path \<Rightarrow> string \<Rightarrow> bool"

definition emit :: "event list \<Rightarrow> world \<Rightarrow> world" where
  "emit es w = w\<lparr>events := events w @ es\<rparr>"

text \<open>
  \<^verbatim>\<open>subprocess.run(cmd, check=True)\<close>: the output path is written (in full or in part) and a
  non-zero exit status raises \<^verbatim>\<open>CalledProcessError\<close>.
\<close>

definition subprocess_run :: "env \<Rightarrow> cmd \<Rightarrow> world \<Rightarrow> error option \<times> world" where
  "subprocess_run ev c w =
     (case proc ev (files w) c of
        Exit0 b \<Rightarrow> (None, emit [Ran c] (w\<lparr>files := (files w)(cmd_output c \<mapsto> b)\<rparr>))
      | ExitFail None \<Rightarrow> (Some CalledProcessError, emit [Ran c] w)
      | ExitFail (Some b) \<Rightarrow>
          (Some CalledProcessError, emit [Ran c] (w\<lparr>files := (files w)(cmd_output c \<mapsto> b)\<rparr>)))"

section \<open>ffmpeg helpers\<close>

definition make_video_from_images :: "env \<Rightarrow> path \<Rightarrow> path \<Rightarrow> int \<Rightarrow> world \<Rightarrow> error option \<times> world" where
  "make_video_from_images ev frames_dir out_mp4 fps w =
     subprocess_run ev (FfmpegImages frames_dir fps out_mp4)
       (emit [LogInfo (''Making video for '' @ path_str frames_dir @ '' -> '' @ path_str out_mp4)] w)"

text \<open>
  The \<^verbatim>\<open>for v in video_paths\<close> loop of \<^verbatim>\<open>concat_videos_fast\<close>: each video is remuxed to a
  transport stream beside it, and the stream's path is appended to \<^verbatim>\<open>ts_files\<close> only after
  its ffmpeg run succeeded. The list is returned also when the loop is left by an exception,
  for the \<^verbatim>\<open>finally\<close> block.
\<close>

fun convert_all :: "env \<Rightarrow> path list \<Rightarrow> path list \<Rightarrow> world \<Rightarrow> error option \<times> path list \<times> world" where
  "convert_all ev [] ts_files w = (None, ts_files, w)"
| "convert_all ev (v # vs) ts_files w =
     (case with_suffix v ''.ts'' of
        None \<Rightarrow> (Some ValueError, ts_files, w)
      | Some ts \<Rightarrow>
          (case subprocess_run ev (FfmpegToTs v ts) w of
             (Some e, w') \<Rightarrow> (Some e, ts_files, w')
           | (None, w') \<Rightarrow> convert_all ev vs (ts_files @ [ts]) w'))"

text \<open>\<^verbatim>\<open>os.remove(p)\<close> under \<^verbatim>\<open>try: ... except: pass\<close>, for every \<open>p\<close> of \<^verbatim>\<open>ts_files\<close>.\<close>

definition remove_all :: "path list \<Rightarrow> world \<Rightarrow> world" where
  "remove_all ps w = w\<lparr>files := fold (\<lambda>p f. f(p := None)) ps (files w)\<rparr>"

definition concat_videos_fast :: "env \<Rightarrow> path list \<Rightarrow> path \<Rightarrow> world \<Rightarrow> error option \<times> world" where
  "concat_videos_fast ev video_paths outpath w =
     (case convert_all ev video_paths []
             (emit [LogInfo (''Concat '' @ digits (length video_paths) @ '' videos -> '' @ path_str outpath)] w) of
        (Some e, ts_files, w1) \<Rightarrow> (Some e, remove_all ts_files w1)
      | (None, ts_files, w1) \<Rightarrow>
          (case subprocess_run ev (FfmpegConcat ts_files outpath) w1 of
             (r, w2) \<Rightarrow> (r, remove_all ts_files w2)))"

text \<open>\<^verbatim>\<open>os.replace(src, dst)\<close>: an atomic rename; a missing source raises.\<close>

definition os_replace :: "path \<Rightarrow> path \<Rightarrow> world \<Rightarrow> error option \<times> world" where
  "os_replace src dst w =
     (case files w src of
        None \<Rightarrow> (Some FileNotFoundError, w)
      | Some b \<Rightarrow> (None, w\<lparr>files := ((files w)(src := None))(dst \<mapsto> b)\<rparr>))"

definition merge_daily_into_master :: "env \<Rightarrow> path \<Rightarrow> path \<Rightarrow> world \<Rightarrow> error option \<times> world" where
  "merge_daily_into_master ev master_path day_video_path w =
     (if files w master_path = None
      then subprocess_run ev (Cp day_video_path master_path) w
      else (case with_suffix master_path ''.new.mp4'' of
              None \<Rightarrow> (Some ValueError, w)
            | Some temp_out \<Rightarrow>
                (case concat_videos_fast ev [master_path, day_video_path] temp_out w of
                   (Some e, w1) \<Rightarrow> (Some e, w1)
                 | (None, w1) \<Rightarrow> os_replace temp_out master_path w1)))"

section \<open>Telegram helpers\<close>

text \<open>
  \<^verbatim>\<open>send_file_telegram\<close>. The size test is \<^verbatim>\<open>st_size / 1024 / 1024 > MAX_TELEGRAM_MB\<close>; the
  quotient is taken in the reals (dividing a double by a power of two is exact, and Python
  compares a float with an int exactly). \<^verbatim>\<open>stat()\<close> on a missing file raises. Building the
  \<^verbatim>\<open>Bot\<close>, opening the file and \<^verbatim>\<open>bot.send_video\<close> are the transport call: one event, and an
  outcome given by the environment. The warning for a file over the ceiling is logged
  without the size it prints.
\<close>

definition send_file_telegram :: "config \<Rightarrow> env \<Rightarrow> path \<Rightarrow> string \<Rightarrow> world \<Rightarrow> error option \<times> world" where
  "send_file_telegram cfg ev file_path caption w =
     (if TELEGRAM_BOT_TOKEN cfg = [] \<or> TELEGRAM_CHAT_ID cfg = []
      then (None, emit [LogWarning ''Telegram not configured.''] w)
      else (case files w file_path of
              None \<Rightarrow> (Some FileNotFoundError, w)
            | Some content \<Rightarrow>
                if real (length content) / 1024 / 1024 > real_of_int (MAX_TELEGRAM_MB cfg)
                then (None, emit [LogWarning ''Skipping send, file too large''] w)
                else if send_video ev file_path caption
                then (None, emit [SendVideo file_path caption,
                                  LogInfo (''Sent '' @ last file_path @ '' to Telegram'')] w)
                else (Some TelegramError, emit [SendVideo file_path caption] w)))"

section \<open>The capture daemon\<close>

text \<open>
  The fields of \<^verbatim>\<open>TimelapseDaemon\<close>. \<open>cap\<close> says whether a \<^verbatim>\<open>VideoCapture\<close> is held; \<open>seq\<close>
  is only ever set to 1 and incremented, so it is a natural number.
\<close>

record daemon =
  cap :: bool
  seq :: nat
  running :: bool
  interval :: int
  current_day :: date
  current_dir :: path

text \<open>\<^verbatim>\<open>TimelapseDaemon.__init__\<close>; \<open>today\<close> is the reading of \<^verbatim>\<open>datetime.date.today()\<close>.\<close>

definition init_daemon :: "config \<Rightarrow> date \<Rightarrow> world \<Rightarrow> daemon \<times> world" where
  "init_daemon cfg today w =
     (\<lparr>cap = False, seq = 1, running = False, interval = CAPTURE_INTERVAL_SECONDS cfg,
       current_day = today, current_dir = day_dir cfg today\<rparr>,
      w\<lparr>dirs := insert (day_dir cfg today) (dirs w)\<rparr>)"

text \<open>
  \<^verbatim>\<open>open_cam\<close>; \<open>ret\<close> is the flag of the health-check \<^verbatim>\<open>cap.read()\<close> made after the
  one-second delay. The capture object is assigned before the read.
\<close>

definition open_cam :: "bool \<Rightarrow> daemon \<Rightarrow> error option \<times> daemon" where
  "open_cam ret d = (if \<not> ret then (Some CameraNotAccessible, d\<lparr>cap := True\<rparr>) else (None, d\<lparr>cap := True\<rparr>))"

text \<open>
  One capture: what \<^verbatim>\<open>cap.read()\<close> returned (\<open>None\<close> when its flag is false) and what
  \<^verbatim>\<open>cv2.imwrite\<close> did with the frame: stored it and returned true, returned false without
  storing it, or raised.
\<close>

datatype imwrite_result = Stored | NotStored | Raised

record shot =
  grabbed :: "bytes option"
  stored :: imwrite_result

text \<open>
  \<^verbatim>\<open>capture_frame\<close>. The value returned by \<^verbatim>\<open>cv2.imwrite\<close> is not looked at: the log line and
  the increment of \<open>seq\<close> follow in either case. An exception of \<^verbatim>\<open>imwrite\<close> leaves the
  method before both.
\<close>

definition capture_frame :: "shot \<Rightarrow> daemon \<times> world \<Rightarrow> error + daemon \<times> world" where
  "capture_frame sh s =
     (case s of (d, w) \<Rightarrow>
        (case grabbed sh of
           None \<Rightarrow> Inr (d, emit [LogWarning ''Failed to capture frame.''] w)
         | Some frame \<Rightarrow>
             (let filename = current_dir d @ [frame_name (seq d)]
              in case stored sh of
                   Raised \<Rightarrow> Inl Cv2Error
                 | Stored \<Rightarrow>
                     Inr (d\<lparr>seq := seq d + 1\<rparr>,
                          emit [Imwrite filename True, LogInfo (''Captured '' @ path_str filename)]
                            (w\<lparr>files := (files w)(filename \<mapsto> frame)\<rparr>))
                 | NotStored \<Rightarrow>
                     Inr (d\<lparr>seq := seq d + 1\<rparr>,
                          emit [Imwrite filename False, LogInfo (''Captured '' @ path_str filename)] w))))"

text \<open>
  \<^verbatim>\<open>finalize_day_async\<close> as the capture loop sees it: a thread is started and the call
  returns; the job itself is \<open>finalize_job\<close> below.
\<close>

definition finalize_day_async :: "date \<Rightarrow> path \<Rightarrow> world \<Rightarrow> world" where
  "finalize_day_async dy dirpath w = emit [Finalize dy dirpath] w"

text \<open>The \<^verbatim>\<open>if now != self.current_day\<close> block at the head of the loop of \<^verbatim>\<open>run\<close>.\<close>

definition rollover :: "config \<Rightarrow> date \<Rightarrow> daemon \<times> world \<Rightarrow> daemon \<times> world" where
  "rollover cfg now s =
     (case s of (d, w) \<Rightarrow>
        if now \<noteq> current_day d
        then (let w1 = finalize_day_async (current_day d) (current_dir d) w
              in (d\<lparr>current_day := now, current_dir := day_dir cfg now, seq := 1\<rparr>,
                  w1\<lparr>dirs := insert (day_dir cfg now) (dirs w1)\<rparr>))
        else (d, w))"

text \<open>
  The wait between two captures: \<^verbatim>\<open>for _ in range(self.interval)\<close>, one \<^verbatim>\<open>time.sleep(1)\<close> and
  one reading of the date per round, left at the first reading that differs from
  \<open>current_day\<close>. The result is the number of sleeps and the readings not yet consumed. The
  list of readings is the finite stretch of the run that is observed; the wait is cut where
  it ends.
\<close>

fun sleep_poll :: "nat \<Rightarrow> date \<Rightarrow> date list \<Rightarrow> nat \<times> date list" where
  "sleep_poll 0 cur clock = (0, clock)"
| "sleep_poll (Suc n) cur [] = (0, [])"
| "sleep_poll (Suc n) cur (t # clock) =
     (if t \<noteq> cur then (1, clock)
      else (case sleep_poll n cur clock of (k, rest) \<Rightarrow> (Suc k, rest)))"

text \<open>
  One round of the \<^verbatim>\<open>while self.running\<close> loop: \<open>now\<close> is the reading at its head, \<open>clock\<close>
  the readings that follow. An exception of \<^verbatim>\<open>capture_frame\<close> leaves the loop.
\<close>

definition loop_body ::
  "config \<Rightarrow> shot \<Rightarrow> date \<Rightarrow> date list \<Rightarrow> daemon \<times> world \<Rightarrow> error option \<times> date list \<times> daemon \<times> world" where
  "loop_body cfg sh now clock s =
     (let s1 = rollover cfg now s
      in case capture_frame sh s1 of
           Inl e \<Rightarrow> (Some e, clock, s1)
         | Inr (d2, w2) \<Rightarrow>
             (case sleep_poll (nat (interval d2)) (current_day d2) clock of
                (k, rest) \<Rightarrow> (None, rest, d2, emit (replicate k Sleep) w2)))"

text \<open>
  The loop, for as long as the run is observed: one shot per round, one clock reading per
  call of \<^verbatim>\<open>date.today()\<close>. Where either list ends the loop is interrupted (the
  \<^verbatim>\<open>KeyboardInterrupt\<close> branch).
\<close>

fun run_loop :: "config \<Rightarrow> shot list \<Rightarrow> date list \<Rightarrow> daemon \<times> world \<Rightarrow> error option \<times> daemon \<times> world" where
  "run_loop cfg (sh # shots) (now # clock) s =
     (case loop_body cfg sh now clock s of
        (Some e, rest, s') \<Rightarrow> (Some e, s')
      | (None, rest, s') \<Rightarrow> run_loop cfg shots rest s')"
| "run_loop cfg shots clock s = (None, s)"

text \<open>
  \<^verbatim>\<open>run\<close>. \<^verbatim>\<open>open_cam\<close> is called before the \<^verbatim>\<open>try\<close>, so its exception skips the
  \<^verbatim>\<open>finally\<close> block; any other way out of the loop goes through it.
\<close>

definition run :: "config \<Rightarrow> bool \<Rightarrow> shot list \<Rightarrow> date list \<Rightarrow> daemon \<times> world \<Rightarrow> error option \<times> daemon \<times> world" where
  "run cfg cam_ret shots clock s =
     (case s of (d, w) \<Rightarrow>
        (case open_cam cam_ret (d\<lparr>running := True\<rparr>) of
           (Some e, d1) \<Rightarrow> (Some e, d1, w)
         | (None, d1) \<Rightarrow>
             (case run_loop cfg shots clock (d1, emit [LogInfo ''Timelapse daemon started. Ctrl+C to stop.''] w) of
                (r, d2, w2) \<Rightarrow> (r, d2\<lparr>running := False, cap := False\<rparr>, w2))))"

text \<open>\<^verbatim>\<open>n\<close> calls of \<^verbatim>\<open>capture_frame\<close> in a row, as the loop makes them while the date stays.\<close>

fun capture_frames :: "shot list \<Rightarrow> daemon \<times> world \<Rightarrow> error option \<times> daemon \<times> world" where
  "capture_frames [] s = (None, s)"
| "capture_frames (sh # shots) s =
     (case capture_frame sh s of
        Inl e \<Rightarrow> (Some e, s)
      | Inr s' \<Rightarrow> capture_frames shots s')"

section \<open>The finalization job\<close>

text \<open>
  The function \<^verbatim>\<open>job\<close> inside \<^verbatim>\<open>finalize_day_async\<close>: four steps under one
  \<^verbatim>\<open>try ... except Exception\<close>, so the first exception ends the job and is logged.
\<close>

definition finalize_job :: "config \<Rightarrow> env \<Rightarrow> date \<Rightarrow> path \<Rightarrow> world \<Rightarrow> world" where
  "finalize_job cfg ev dy dirpath w =
     (let day_str = isoformat dy;
          out_mp4 = VIDEOS_DIR cfg @ [day_str @ ''.mp4''];
          master = VIDEOS_DIR cfg @ [''master.mp4'']
      in case make_video_from_images ev dirpath out_mp4 (DAILY_FPS cfg) w of
           (Some e, w1) \<Rightarrow> emit [LogException e] w1
         | (None, w1) \<Rightarrow>
             (case send_file_telegram cfg ev out_mp4 (''Timelapse '' @ day_str) w1 of
                (Some e, w2) \<Rightarrow> emit [LogException e] w2
              | (None, w2) \<Rightarrow>
                  (case merge_daily_into_master ev master out_mp4 w2 of
                     (Some e, w3) \<Rightarrow> emit [LogException e] w3
                   | (None, w3) \<Rightarrow>
                       (case send_file_telegram cfg ev master (''Updated master after '' @ day_str) w3 of
                          (Some e, w4) \<Rightarrow> emit [LogException e] w4
                        | (None, w4) \<Rightarrow> w4))))"

section \<open>The main block\<close>

text \<open>
  With \<^verbatim>\<open>--run\<close> the capture loop runs in a thread of its own. The main thread then either
  serves the \<^verbatim>\<open>/status\<close> command (\<^verbatim>\<open>app.run_polling()\<close>, which does not return by itself) or,
  with no bot token, joins the capture thread. The result is the state of the process once
  the capture thread has ended, with what that thread left.
\<close>

datatype process = Exited | Polling

definition main ::
  "config \<Rightarrow> bool \<Rightarrow> date \<Rightarrow> bool \<Rightarrow> shot list \<Rightarrow> date list \<Rightarrow> world
     \<Rightarrow> process \<times> (error option \<times> daemon \<times> world) option" where
  "main cfg args_run today cam_ret shots clock w =
     (if args_run
      then (let t = run cfg cam_ret shots clock (init_daemon cfg today w)
            in if TELEGRAM_BOT_TOKEN cfg \<noteq> [] then (Polling, Some t) else (Exited, Some t))
      else (Exited, None))"

section \<open>Two finalizer jobs at once\<close>

text \<open>
  \<^verbatim>\<open>merge_daily_into_master\<close> once more, cut into the steps another thread can come between:
  the test \<^verbatim>\<open>master_path.exists()\<close>, each \<^verbatim>\<open>subprocess.run\<close>, the \<^verbatim>\<open>finally\<close> block of
  \<^verbatim>\<open>concat_videos_fast\<close>, and \<^verbatim>\<open>os.replace\<close>. A job that runs the merge is at one of these
  places, with its local variables.
\<close>

datatype place = AtExists | AtCopy | AtRemuxMaster | AtRemuxDay | AtConcat | AtFinally | AtReplace | AtReturn

record merger =
  m_at :: place
  m_master :: path
  m_day :: path
  m_temp :: path
  m_ts :: "path list"
  m_raised :: "error option"

definition start_merge :: "path \<Rightarrow> path \<Rightarrow> merger" where
  "start_merge master_path day_video_path =
     \<lparr>m_at = AtExists, m_master = master_path, m_day = day_video_path, m_temp = [], m_ts = [],
      m_raised = None\<rparr>"

definition remux_step :: "env \<Rightarrow> path \<Rightarrow> place \<Rightarrow> merger \<Rightarrow> world \<Rightarrow> merger \<times> world" where
  "remux_step ev v next_place t w =
     (case with_suffix v ''.ts'' of
        None \<Rightarrow> (t\<lparr>m_at := AtFinally, m_raised := Some ValueError\<rparr>, w)
      | Some ts \<Rightarrow>
          (case subprocess_run ev (FfmpegToTs v ts) w of
             (Some e, w') \<Rightarrow> (t\<lparr>m_at := AtFinally, m_raised := Some e\<rparr>, w')
           | (None, w') \<Rightarrow> (t\<lparr>m_at := next_place, m_ts := m_ts t @ [ts]\<rparr>, w')))"

definition merge_step :: "env \<Rightarrow> merger \<Rightarrow> world \<Rightarrow> merger \<times> world" where
  "merge_step ev t w =
     (case m_at t of
        AtExists \<Rightarrow>
          (if files w (m_master t) = None then (t\<lparr>m_at := AtCopy\<rparr>, w)
           else (case with_suffix (m_master t) ''.new.mp4'' of
                   None \<Rightarrow> (t\<lparr>m_at := AtReturn, m_raised := Some ValueError\<rparr>, w)
                 | Some temp_out \<Rightarrow>
                     (t\<lparr>m_at := AtRemuxMaster, m_temp := temp_out\<rparr>,
                      emit [LogInfo (''Concat '' @ digits (length [m_master t, m_day t])
                                      @ '' videos -> '' @ path_str temp_out)] w)))
      | AtCopy \<Rightarrow>
          (case subprocess_run ev (Cp (m_day t) (m_master t)) w of
             (r, w') \<Rightarrow> (t\<lparr>m_at := AtReturn, m_raised := r\<rparr>, w'))
      | AtRemuxMaster \<Rightarrow> remux_step ev (m_master t) AtRemuxDay t w
      | AtRemuxDay \<Rightarrow> remux_step ev (m_day t) AtConcat t w
      | AtConcat \<Rightarrow>
          (case subprocess_run ev (FfmpegConcat (m_ts t) (m_temp t)) w of
             (r, w') \<Rightarrow> (t\<lparr>m_at := AtFinally, m_raised := r\<rparr>, w'))
      | AtFinally \<Rightarrow>
          (t\<lparr>m_at := (if m_raised t = None then AtReplace else AtReturn)\<rparr>, remove_all (m_ts t) w)
      | AtReplace \<Rightarrow>
          (case os_replace (m_temp t) (m_master t) w of
             (r, w') \<Rightarrow> (t\<lparr>m_at := AtReturn, m_raised := r\<rparr>, w'))
      | AtReturn \<Rightarrow> (t, w))"

text \<open>One job running its merge alone, for \<open>n\<close> steps.\<close>

fun merge_steps :: "env \<Rightarrow> nat \<Rightarrow> merger \<times> world \<Rightarrow> merger \<times> world" where
  "merge_steps ev 0 s = s"
| "merge_steps ev (Suc n) s = (case s of (t, w) \<Rightarrow> merge_steps ev n (merge_step ev t w))"

text \<open>
  Two jobs on the same files. The schedule says whose step comes next: \<open>True\<close> for the job of
  the earlier day, \<open>False\<close> for the job of the later day. Nothing in the program orders the
  steps of two jobs, so every schedule is a possible run.
\<close>

fun interleave :: "env \<Rightarrow> bool list \<Rightarrow> merger \<times> merger \<times> world \<Rightarrow> merger \<times> merger \<times> world" where
  "interleave ev [] s = s"
| "interleave ev (first # sched) s =
     (case s of (ta, tb, w) \<Rightarrow>
        if first then (case merge_step ev ta w of (ta', w') \<Rightarrow> interleave ev sched (ta', tb, w'))
        else (case merge_step ev tb w of (tb', w') \<Rightarrow> interleave ev sched (ta, tb', w')))"

section \<open>Environments of reference\<close>

text \<open>
  An environment in which every ffmpeg and \<^verbatim>\<open>cp\<close> run succeeds whenever its inputs exist and
  does what its command line asks: a remux keeps the stream, a concatenation joins the
  streams in the order given, a copy copies. The content of an encoded day is left open
  (\<open>encode\<close>). The transport always delivers.
\<close>

fun ideal_proc :: "(path \<Rightarrow> bytes) \<Rightarrow> (path \<rightharpoonup> bytes) \<Rightarrow> cmd \<Rightarrow> proc_result" where
  "ideal_proc encode fs (FfmpegImages frames_dir fps out_mp4) = Exit0 (encode frames_dir)"
| "ideal_proc encode fs (FfmpegToTs v ts) = (case fs v of None \<Rightarrow> ExitFail None | Some c \<Rightarrow> Exit0 c)"
| "ideal_proc encode fs (FfmpegConcat ts_files outpath) =
     (if list_all (\<lambda>t. fs t \<noteq> None) ts_files
      then Exit0 (concat (map (\<lambda>t. the (fs t)) ts_files)) else ExitFail None)"
| "ideal_proc encode fs (Cp src dst) = (case fs src of None \<Rightarrow> ExitFail None | Some c \<Rightarrow> Exit0 c)"

definition ideal_env :: env where
  "ideal_env = \<lparr>proc = ideal_proc path_str, send_video = (\<lambda>p caption. True)\<rparr>"

text \<open>The same, except that the concatenation dies half way, leaving a partial output.\<close>

definition concat_fails_env :: env where
  "concat_fails_env =
     \<lparr>proc = (\<lambda>fs c. case c of FfmpegConcat ts_files outpath \<Rightarrow> ExitFail (Some ''partial'')
                              | _ \<Rightarrow> ideal_proc path_str fs c),
      send_video = (\<lambda>p caption. True)\<rparr>"

text \<open>The same as the first, except that the transport fails.\<close>

definition send_fails_env :: env where
  "send_fails_env = \<lparr>proc = ideal_proc path_str, send_video = (\<lambda>p caption. False)\<rparr>"

section \<open>Properties of clocks and traces\<close>

text \<open>A capture that grabbed a frame and stored it.\<close>

definition successful :: "shot \<Rightarrow> bool" where
  "successful sh = (grabbed sh \<noteq> None \<and> stored sh = Stored)"

text \<open>
  A capture with no failed write: the read failed (and the capture is skipped), or the frame
  that was read was stored.
\<close>

definition stored_if_grabbed :: "shot \<Rightarrow> bool" where
  "stored_if_grabbed sh = (grabbed sh = None \<or> stored sh = Stored)"

text \<open>The order of \<^verbatim>\<open>datetime.date\<close> values: by year, then month, then day.\<close>

definition date_key :: "date \<Rightarrow> nat \<times> nat \<times> nat" where
  "date_key d = (year d, month d, day d)"

text \<open>A list of date readings in which no date comes back once the readings have moved away from it.\<close>

definition no_return :: "date list \<Rightarrow> bool" where
  "no_return ds = distinct (remdups_adj ds)"

text \<open>Kinds of events.\<close>

fun is_finalize :: "event \<Rightarrow> bool" where
  "is_finalize (Finalize dy dir) = True"
| "is_finalize e = False"

fun is_send :: "event \<Rightarrow> bool" where
  "is_send (SendVideo p caption) = True"
| "is_send e = False"

fun is_ran :: "event \<Rightarrow> bool" where
  "is_ran (Ran c) = True"
| "is_ran e = False"

text \<open>The directories handed to a finalizer in a trace, added to those in \<open>F\<close>.\<close>

fun frozen_after :: "path list \<Rightarrow> event list \<Rightarrow> path list" where
  "frozen_after F [] = F"
| "frozen_after F (Finalize dy dir # es) = frozen_after (dir # F) es"
| "frozen_after F (e # es) = frozen_after F es"

text \<open>The files \<^verbatim>\<open>cv2.imwrite\<close> was called on, in a trace, inside a directory that had been handed
  to a finalizer earlier in the trace (or is in \<open>F\<close>).\<close>

fun stale_writes :: "path list \<Rightarrow> event list \<Rightarrow> path list" where
  "stale_writes F [] = []"
| "stale_writes F (Finalize dy dir # es) = stale_writes (dir # F) es"
| "stale_writes F (Imwrite p ok # es) =
     (if butlast p \<in> set F then p # stale_writes F es else stale_writes F es)"
| "stale_writes F (e # es) = stale_writes F es"

text \<open>The invariant of the capture loop, for the readings still to come.\<close>

definition loop_inv :: "config \<Rightarrow> date list \<Rightarrow> daemon \<times> world \<Rightarrow> bool" where
  "loop_inv cfg clock s =
     (case s of (d, w) \<Rightarrow>
        current_dir d = day_dir cfg (current_day d)
        \<and> no_return (current_day d # clock)
        \<and> stale_writes [] (events w) = []
        \<and> (\<forall>dir\<in>set (frozen_after [] (events w)). \<forall>t\<in>set (current_day d # clock). dir \<noteq> day_dir cfg t))"

section \<open>Decimal digits\<close>

text \<open>The \<open>w\<close> lowest decimal digits of \<open>n\<close>, highest first: what \<^verbatim>\<open>0wd\<close> prints when \<open>n\<close> fits.\<close>

fun digs :: "nat \<Rightarrow> nat \<Rightarrow> string" where
  "digs 0 n = []"
| "digs (Suc w) n = digs w (n div 10) @ [digit_char (n mod 10)]"

text \<open>The value of a digit character, and of a string of digits.\<close>

definition digit_val :: "char \<Rightarrow> nat" where
  "digit_val c = of_char c - 48"

definition str_val :: "string \<Rightarrow> nat" where
  "str_val s = foldl (\<lambda>a c. 10 * a + digit_val c) 0 s"

section \<open>Example inputs\<close>

text \<open>A configuration, two days, an empty world, and the daemon as constructed on the first day.\<close>

definition cfg0 :: config where
  "cfg0 = \<lparr>BASE_DIR = [''data''], CAPTURE_INTERVAL_SECONDS = 2, DAILY_FPS = 30,
           TELEGRAM_BOT_TOKEN = ''token'', TELEGRAM_CHAT_ID = ''chat'', MAX_TELEGRAM_MB = 400\<rparr>"

definition day1 :: date where
  "day1 = Date 2024 3 9"

definition day2 :: date where
  "day2 = Date 2024 3 10"

definition world0 :: world where
  "world0 = \<lparr>files = Map.empty, dirs = {}, events = []\<rparr>"

definition daemon0 :: daemon where
  "daemon0 = fst (init_daemon cfg0 day1 world0)"

text \<open>A capture that succeeds with the given frame.\<close>

definition good_shot :: "bytes \<Rightarrow> shot" where
  "good_shot b = \<lparr>grabbed = Some b, stored = Stored\<rparr>"

text \<open>A capture whose read fails.\<close>

definition failed_read :: shot where
  "failed_read = \<lparr>grabbed = None, stored = Stored\<rparr>"

text \<open>A world in which an earlier run of the same day left two frames.\<close>

definition world_with_old_frames :: world where
  "world_with_old_frames =
     \<lparr>files = [[''data'', ''images'', ''2024-03-09'', ''000001.jpg''] \<mapsto> ''old1'',
               [''data'', ''images'', ''2024-03-09'', ''000002.jpg''] \<mapsto> ''old2''],
      dirs = {[''data'', ''images'', ''2024-03-09'']}, events = []\<rparr>"

text \<open>The same configuration with no wait between captures, with a size ceiling of 0 MB, and
  with no bot token.\<close>

definition cfg_nowait :: config where
  "cfg_nowait = cfg0\<lparr>CAPTURE_INTERVAL_SECONDS := 0\<rparr>"

definition cfg_tiny :: config where
  "cfg_tiny = cfg0\<lparr>MAX_TELEGRAM_MB := 0\<rparr>"

definition cfg_unconfigured :: config where
  "cfg_unconfigured = cfg0\<lparr>TELEGRAM_BOT_TOKEN := []\<rparr>"

text \<open>A world with a master and the video of the first day; one with the videos of both days.\<close>

definition world_with_master :: world where
  "world_with_master =
     \<lparr>files = [VIDEOS_DIR cfg0 @ [''master.mp4''] \<mapsto> ''M'',
               VIDEOS_DIR cfg0 @ [''2024-03-09.mp4''] \<mapsto> ''D''],
      dirs = {}, events = []\<rparr>"

definition world_two_days :: world where
  "world_two_days =
     \<lparr>files = [VIDEOS_DIR cfg0 @ [''master.mp4''] \<mapsto> ''M'',
               VIDEOS_DIR cfg0 @ [''2024-03-09.mp4''] \<mapsto> ''A'',
               VIDEOS_DIR cfg0 @ [''2024-03-10.mp4''] \<mapsto> ''B''],
      dirs = {}, events = []\<rparr>"

chapter \<open>Auxiliary lemmas\<close>

lemma lt10_cases:
  "k < 10 \<Longrightarrow> k = 0 \<or> k = 1 \<or> k = 2 \<or> k = 3 \<or> k = 4 \<or> k = 5 \<or> k = 6 \<or> k = 7 \<or> k = 8 \<or> k = (9::nat)"
  by arith

lemma of_char_digit_char: "k < 10 \<Longrightarrow> of_char (digit_char k) = 48 + k"
  using lt10_cases[of k] by (auto simp: digit_char_def)

lemma digit_val_digit_char [simp]: "k < 10 \<Longrightarrow> digit_val (digit_char k) = k"
  by (simp add: digit_val_def of_char_digit_char)

lemma digit_char_less [simp]:
  "a < 10 \<Longrightarrow> b < 10 \<Longrightarrow> digit_char a < digit_char b \<longleftrightarrow> a < b"
  by (simp add: less_char_def of_char_digit_char)

lemma digit_char_eq [simp]:
  "a < 10 \<Longrightarrow> b < 10 \<Longrightarrow> digit_char a = digit_char b \<longleftrightarrow> a = b"
  by (metis digit_val_digit_char)

lemma digit_char_not_dash [simp]: "k < 10 \<Longrightarrow> digit_char k \<noteq> CHR ''-''"
  using lt10_cases[of k] by (auto simp: digit_char_def)

lemma dash_not_digit_char [simp]: "k < 10 \<Longrightarrow> CHR ''-'' \<noteq> digit_char k"
  using lt10_cases[of k] by (auto simp: digit_char_def)

lemma digit_char_0: "digit_char 0 = CHR ''0''"
  by (simp add: digit_char_def)

lemma digs_0: "digs w 0 = replicate w (CHR ''0'')"
  by (induction w) (simp_all add: digit_char_0 replicate_append_same)

lemma length_digs [simp]: "length (digs w n) = w"
  by (induction w arbitrary: n) simp_all

lemma length_digits_pos: "0 < length (digits n)"
  by (subst digits.simps) simp

lemma fmt_0d_digs: "n < 10 ^ w \<Longrightarrow> 0 < w \<Longrightarrow> fmt_0d w n = digs w n"
proof (induction w arbitrary: n)
  case 0
  then show ?case by simp
next
  case (Suc w)
  show ?case
  proof (cases "n < 10")
    case True
    then show ?thesis
      by (simp add: fmt_0d_def zfill_def digits.simps[of n] digs_0)
  next
    case False
    with Suc.prems have w: "0 < w" by (cases w) auto
    from Suc.prems have lt: "n div 10 < 10 ^ w" by (simp add: less_mult_imp_div_less mult.commute)
    have ih: "fmt_0d w (n div 10) = digs w (n div 10)" using lt w by (rule Suc.IH)
    have "length (fmt_0d w (n div 10)) = w" by (simp add: ih)
    then have len: "length (digits (n div 10)) \<le> w"
      by (simp add: fmt_0d_def zfill_def)
    from False have "fmt_0d (Suc w) n = fmt_0d w (n div 10) @ [digit_char (n mod 10)]"
      using len by (simp add: fmt_0d_def zfill_def digits.simps[of n] Suc_diff_le)
    with ih show ?thesis by simp
  qed
qed

lemma str_val_append: "str_val (s @ [c]) = 10 * str_val s + digit_val c"
  by (simp add: str_val_def)

lemma str_val_digits: "str_val (digits n) = n"
proof (induction n rule: digits.induct)
  case (1 n)
  show ?case
  proof (cases "n < 10")
    case True
    then show ?thesis by (simp add: digits.simps[of n] str_val_def)
  next
    case False
    with 1 have "str_val (digits (n div 10)) = n div 10" by simp
    with False show ?thesis by (simp add: digits.simps[of n] str_val_append)
  qed
qed

lemma str_val_zeros: "str_val (replicate k (CHR ''0'') @ s) = str_val s"
proof -
  have "foldl (\<lambda>a c. 10 * a + digit_val c) 0 (replicate k (CHR ''0'')) = 0"
    by (induction k) (simp_all add: digit_val_def)
  then show ?thesis by (simp add: str_val_def)
qed

lemma str_val_fmt_0d [simp]: "str_val (fmt_0d w n) = n"
  by (simp add: fmt_0d_def zfill_def str_val_zeros str_val_digits)

lemma fmt_0d_inj [simp]: "fmt_0d w a = fmt_0d w b \<longleftrightarrow> a = b"
  by (metis str_val_fmt_0d)

lemma digits_no_dash: "CHR ''-'' \<notin> set (digits n)"
proof (induction n rule: digits.induct)
  case (1 n)
  show ?case
  proof (cases "n < 10")
    case True
    then have "digits n = [digit_char n]" by (simp add: digits.simps[of n])
    with digit_char_not_dash[OF True] show ?thesis by auto
  next
    case False
    with 1 have "CHR ''-'' \<notin> set (digits (n div 10))" by simp
    moreover have "CHR ''-'' \<noteq> digit_char (n mod 10)" by (rule dash_not_digit_char) simp
    moreover from False have "digits n = digits (n div 10) @ [digit_char (n mod 10)]"
      by (simp add: digits.simps[of n])
    ultimately show ?thesis by auto
  qed
qed

lemma fmt_0d_no_dash: "CHR ''-'' \<notin> set (fmt_0d w n)"
  using digits_no_dash[of n] by (auto simp: fmt_0d_def zfill_def)

lemma length_fmt_0d_ge: "w \<le> length (fmt_0d w n)"
  by (simp add: fmt_0d_def zfill_def)

lemma append_less_same_length:
  "length xs = length ys \<Longrightarrow> xs @ s < ys @ t \<longleftrightarrow> xs < ys \<or> (xs = ys \<and> s < t)"
  by (induction xs ys rule: list_induct2) auto

lemma digs_inj: "a < 10 ^ w \<Longrightarrow> b < 10 ^ w \<Longrightarrow> digs w a = digs w b \<longleftrightarrow> a = b"
proof (induction w arbitrary: a b)
  case 0
  then show ?case by simp
next
  case (Suc w)
  from Suc.prems have "a div 10 < 10 ^ w" "b div 10 < 10 ^ w"
    by (simp_all add: less_mult_imp_div_less mult.commute)
  then have "digs w (a div 10) = digs w (b div 10) \<longleftrightarrow> a div 10 = b div 10"
    by (rule Suc.IH)
  moreover have "a = b \<longleftrightarrow> a div 10 = b div 10 \<and> a mod 10 = b mod 10"
    by (metis div_mult_mod_eq)
  ultimately show ?case by simp
qed

lemma less_by_last_digit:
  "(a::nat) < b \<longleftrightarrow> a div 10 < b div 10 \<or> (a div 10 = b div 10 \<and> a mod 10 < b mod 10)"
proof -
  define qa ra qb rb where "qa = a div 10" and "ra = a mod 10" and "qb = b div 10" and "rb = b mod 10"
  have "a = 10 * qa + ra" "b = 10 * qb + rb" "ra < 10" "rb < 10"
    by (simp_all add: qa_def ra_def qb_def rb_def)
  then have "a < b \<longleftrightarrow> qa < qb \<or> (qa = qb \<and> ra < rb)" by arith
  then show ?thesis by (simp add: qa_def ra_def qb_def rb_def)
qed

lemma digs_less: "a < 10 ^ w \<Longrightarrow> b < 10 ^ w \<Longrightarrow> digs w a < digs w b \<longleftrightarrow> a < b"
proof (induction w arbitrary: a b)
  case 0
  then show ?case by simp
next
  case (Suc w)
  from Suc.prems have bd: "a div 10 < 10 ^ w" "b div 10 < 10 ^ w"
    by (simp_all add: less_mult_imp_div_less mult.commute)
  then have ih: "digs w (a div 10) < digs w (b div 10) \<longleftrightarrow> a div 10 < b div 10"
    by (rule Suc.IH)
  have eq: "digs w (a div 10) = digs w (b div 10) \<longleftrightarrow> a div 10 = b div 10"
    using bd by (rule digs_inj)
  have split_less: "a < b \<longleftrightarrow> a div 10 < b div 10 \<or> (a div 10 = b div 10 \<and> a mod 10 < b mod 10)"
    by (rule less_by_last_digit)
  show ?case
    by (simp add: append_less_same_length ih eq split_less[symmetric])
qed

lemma frame_name_inj [simp]: "frame_name a = frame_name b \<longleftrightarrow> a = b"
  by (simp add: frame_name_def)

lemma frame_name_digs: "n < 10 ^ 6 \<Longrightarrow> frame_name n = digs 6 n @ ''.jpg''"
  by (simp add: frame_name_def fmt_0d_digs)

lemma length_frame_name: "n < 10 ^ 6 \<Longrightarrow> length (frame_name n) = 10"
  by (simp add: frame_name_digs)

lemma frame_name_less:
  "a < 10 ^ 6 \<Longrightarrow> b < 10 ^ 6 \<Longrightarrow> frame_name a < frame_name b \<longleftrightarrow> a < b"
  by (simp add: frame_name_digs append_less_same_length digs_less)

lemma capture_frame_successful:
  "successful sh \<Longrightarrow>
   capture_frame sh (d, w) =
     Inr (d\<lparr>seq := seq d + 1\<rparr>,
          emit [Imwrite (current_dir d @ [frame_name (seq d)]) True,
                LogInfo (''Captured '' @ path_str (current_dir d @ [frame_name (seq d)]))]
            (w\<lparr>files := (files w)(current_dir d @ [frame_name (seq d)] \<mapsto> the (grabbed sh))\<rparr>))"
  by (auto simp: successful_def capture_frame_def Let_def)

lemma files_emit [simp]: "files (emit es w) = files w"
  by (simp add: emit_def)

lemma events_emit [simp]: "events (emit es w) = events w @ es"
  by (simp add: emit_def)

lemma dirs_emit [simp]: "dirs (emit es w) = dirs w"
  by (simp add: emit_def)

lemma capture_frames_successful:
  "list_all successful shots \<Longrightarrow>
   \<exists>d' w'. capture_frames shots (d, w) = (None, d', w')
      \<and> d' = d\<lparr>seq := seq d + length shots\<rparr>
      \<and> (\<forall>k<length shots. files w' (current_dir d @ [frame_name (seq d + k)]) = grabbed (shots ! k))
      \<and> (\<forall>p. (\<forall>k<length shots. p \<noteq> current_dir d @ [frame_name (seq d + k)]) \<longrightarrow> files w' p = files w p)"
proof (induction shots arbitrary: d w)
  case Nil
  then show ?case by simp
next
  case (Cons sh shots)
  let ?f = "current_dir d @ [frame_name (seq d)]"
  define d1 where "d1 = d\<lparr>seq := seq d + 1\<rparr>"
  define w1 where "w1 = emit [Imwrite ?f True, LogInfo (''Captured '' @ path_str ?f)]
            (w\<lparr>files := (files w)(?f \<mapsto> the (grabbed sh))\<rparr>)"
  from Cons.prems have ok: "successful sh" and rest: "list_all successful shots" by simp_all
  have step: "capture_frame sh (d, w) = Inr (d1, w1)"
    using ok by (simp add: capture_frame_successful d1_def w1_def)
  from Cons.IH[OF rest, of d1 w1] obtain d' w' where
    run: "capture_frames shots (d1, w1) = (None, d', w')" and
    d': "d' = d1\<lparr>seq := seq d1 + length shots\<rparr>" and
    hit: "\<forall>k<length shots. files w' (current_dir d1 @ [frame_name (seq d1 + k)]) = grabbed (shots ! k)" and
    miss: "\<forall>p. (\<forall>k<length shots. p \<noteq> current_dir d1 @ [frame_name (seq d1 + k)]) \<longrightarrow> files w' p = files w1 p"
    by blast
  have first: "files w' ?f = grabbed sh"
  proof -
    have "files w' ?f = files w1 ?f" using miss by (simp add: d1_def)
    also have "\<dots> = grabbed sh" using ok by (auto simp: w1_def successful_def)
    finally show ?thesis .
  qed
  have a: "\<forall>k<length (sh # shots). files w' (current_dir d @ [frame_name (seq d + k)]) = grabbed ((sh # shots) ! k)"
  proof (intro allI impI)
    fix k assume "k < length (sh # shots)"
    then show "files w' (current_dir d @ [frame_name (seq d + k)]) = grabbed ((sh # shots) ! k)"
      using first hit by (cases k) (simp_all add: d1_def)
  qed
  have b: "\<forall>p. (\<forall>k<length (sh # shots). p \<noteq> current_dir d @ [frame_name (seq d + k)]) \<longrightarrow> files w' p = files w p"
  proof (intro allI impI)
    fix p assume ne: "\<forall>k<length (sh # shots). p \<noteq> current_dir d @ [frame_name (seq d + k)]"
    then have "p \<noteq> ?f" by force
    moreover have "\<forall>k<length shots. p \<noteq> current_dir d1 @ [frame_name (seq d1 + k)]"
    proof (intro allI impI)
      fix k assume "k < length shots"
      then have "Suc k < length (sh # shots)" by simp
      with ne have "p \<noteq> current_dir d @ [frame_name (seq d + Suc k)]" by blast
      then show "p \<noteq> current_dir d1 @ [frame_name (seq d1 + k)]" by (simp add: d1_def)
    qed
    ultimately show "files w' p = files w p" using miss by (simp add: w1_def)
  qed
  have "capture_frames (sh # shots) (d, w) = (None, d', w')" using step run by simp
  moreover have "d' = d\<lparr>seq := seq d + length (sh # shots)\<rparr>" using d' by (simp add: d1_def)
  ultimately show ?case using a b by blast
qed

lemma successful_good_shot [simp]: "successful (good_shot b)"
  by (simp add: successful_def good_shot_def)

lemma replicate_numeral: "replicate (numeral k) x = x # replicate (pred_numeral k) x"
  by (simp add: numeral_eq_Suc)

lemmas fmt_eval = fmt_0d_def zfill_def digits.simps digit_char_def replicate_numeral

lemma frame_name_1: "frame_name 1 = ''000001.jpg''"
  by (simp add: frame_name_def fmt_eval)

lemma frame_name_Suc_0: "frame_name (Suc 0) = ''000001.jpg''"
  using frame_name_1 by simp

lemma frame_name_2: "frame_name 2 = ''000002.jpg''"
  by (simp add: frame_name_def fmt_eval)

lemma frame_name_3: "frame_name 3 = ''000003.jpg''"
  by (simp add: frame_name_def fmt_eval)

lemma frame_name_999999: "frame_name 999999 = ''999999.jpg''"
  by (simp add: frame_name_def fmt_eval)

lemma frame_name_1000000: "frame_name 1000000 = ''1000000.jpg''"
  by (simp add: frame_name_def fmt_eval)

lemma isoformat_day1: "isoformat day1 = ''2024-03-09''"
  by (simp add: isoformat_def day1_def fmt_eval)

lemma isoformat_day2: "isoformat day2 = ''2024-03-10''"
  by (simp add: isoformat_def day2_def fmt_eval)

lemma daemon0_eval:
  "seq daemon0 = 1" "current_dir daemon0 = [''data'', ''images'', ''2024-03-09'']"
  "current_day daemon0 = day1" "interval daemon0 = 2"
  by (simp_all add: daemon0_def init_daemon_def day_dir_def IMAGES_DIR_def cfg0_def isoformat_day1)

lemma no_return_tl: "no_return (x # xs) \<Longrightarrow> no_return xs"
  by (cases xs) (auto simp: no_return_def split: if_splits)

lemma no_return_dup [simp]: "no_return (x # x # xs) = no_return (x # xs)"
  by (simp add: no_return_def)

lemma no_return_notin: "no_return (x # y # xs) \<Longrightarrow> x \<noteq> y \<Longrightarrow> x \<notin> set (y # xs)"
  using remdups_adj_set[of "y # xs"] by (auto simp: no_return_def)

lemma no_return_skip: "no_return (x # y # xs) \<Longrightarrow> no_return (x # xs)"
proof (cases "x = y")
  case True
  assume "no_return (x # y # xs)"
  with True show ?thesis by simp
next
  case False
  assume nr: "no_return (x # y # xs)"
  with False have notin: "x \<notin> set (y # xs)" by (rule no_return_notin[rotated])
  from nr have "no_return (y # xs)" by (rule no_return_tl)
  then have "no_return xs" by (rule no_return_tl)
  with notin show ?thesis
    using remdups_adj_set[of xs] by (cases xs) (auto simp: no_return_def)
qed

lemma no_return_drop: "no_return (x # xs) \<Longrightarrow> no_return (x # drop k xs)"
proof (induction k arbitrary: xs)
  case 0
  then show ?case by simp
next
  case (Suc k)
  show ?case
  proof (cases xs)
    case Nil
    with Suc.prems show ?thesis by simp
  next
    case (Cons y ys)
    with Suc.prems have "no_return (x # ys)" by (auto dest: no_return_skip)
    then have "no_return (x # drop k ys)" by (rule Suc.IH)
    with Cons show ?thesis by simp
  qed
qed

lemma split_at_separator:
  "c \<notin> set xs \<Longrightarrow> c \<notin> set ys \<Longrightarrow> xs @ c # r = ys @ c # s \<Longrightarrow> xs = ys \<and> r = s"
proof (induction xs arbitrary: ys)
  case Nil
  then show ?case by (cases ys) auto
next
  case (Cons x xs)
  then show ?case by (cases ys) auto
qed

lemma isoformat_inj: "isoformat a = isoformat b \<Longrightarrow> a = b"
proof -
  assume eq: "isoformat a = isoformat b"
  let ?dash = "CHR ''-''"
  from eq have e1: "fmt_0d 4 (year a) @ ?dash # (fmt_0d 2 (month a) @ ?dash # fmt_0d 2 (day a))
      = fmt_0d 4 (year b) @ ?dash # (fmt_0d 2 (month b) @ ?dash # fmt_0d 2 (day b))"
    by (simp add: isoformat_def)
  have y: "fmt_0d 4 (year a) = fmt_0d 4 (year b)"
    and r: "fmt_0d 2 (month a) @ ?dash # fmt_0d 2 (day a) = fmt_0d 2 (month b) @ ?dash # fmt_0d 2 (day b)"
    using split_at_separator[OF fmt_0d_no_dash fmt_0d_no_dash e1] by simp_all
  have m: "fmt_0d 2 (month a) = fmt_0d 2 (month b)" and d: "fmt_0d 2 (day a) = fmt_0d 2 (day b)"
    using split_at_separator[OF fmt_0d_no_dash fmt_0d_no_dash r] by simp_all
  from y m d show "a = b" by (simp add: date.expand)
qed

lemma day_dir_inj [simp]: "day_dir cfg a = day_dir cfg b \<longleftrightarrow> a = b"
  by (auto simp: day_dir_def dest: isoformat_inj)

lemma stale_writes_append:
  "stale_writes F (xs @ ys) = stale_writes F xs @ stale_writes (frozen_after F xs) ys"
  by (induction F xs rule: stale_writes.induct) simp_all

lemma frozen_after_append:
  "frozen_after F (xs @ ys) = frozen_after (frozen_after F xs) ys"
  by (induction F xs rule: frozen_after.induct) simp_all

lemma stale_writes_sleeps [simp]: "stale_writes F (replicate k Sleep) = []"
  by (induction k) simp_all

lemma frozen_after_sleeps [simp]: "frozen_after F (replicate k Sleep) = F"
  by (induction k) simp_all

lemma sleep_poll_drop: "sleep_poll n cur clock = (k, rest) \<Longrightarrow> rest = drop k clock \<and> k \<le> n"
proof (induction n cur clock arbitrary: k rest rule: sleep_poll.induct)
  case (1 cur clock)
  then show ?case by simp
next
  case (2 n cur)
  then show ?case by simp
next
  case (3 n cur t clock)
  show ?case
  proof (cases "t \<noteq> cur")
    case True
    with 3 show ?thesis by auto
  next
    case False
    obtain k' rest' where sp: "sleep_poll n cur clock = (k', rest')" by (cases "sleep_poll n cur clock")
    with 3(1)[OF False sp] have "rest' = drop k' clock \<and> k' \<le> n" by simp
    with 3(2) False sp show ?thesis by auto
  qed
qed

lemma rollover_same: "now = current_day d \<Longrightarrow> rollover cfg now (d, w) = (d, w)"
  by (simp add: rollover_def)

lemma rollover_change:
  "now \<noteq> current_day d \<Longrightarrow>
   rollover cfg now (d, w) =
     (d\<lparr>current_day := now, current_dir := day_dir cfg now, seq := 1\<rparr>,
      (emit [Finalize (current_day d) (current_dir d)] w)\<lparr>dirs := insert (day_dir cfg now) (dirs w)\<rparr>)"
  by (simp add: rollover_def finalize_day_async_def Let_def)

lemma rollover_current_day: "current_day (fst (rollover cfg now s)) = now"
  by (cases s) (simp add: rollover_def Let_def)

lemma rollover_interval: "interval (fst (rollover cfg now s)) = interval (fst s)"
  by (cases s) (simp add: rollover_def Let_def)

lemma capture_frame_Inr:
  assumes "capture_frame sh (d, w) = Inr (d', w')"
  shows "\<exists>evs. events w' = events w @ evs
           \<and> (\<forall>e\<in>set evs. \<not> is_finalize e) \<and> Sleep \<notin> set evs
           \<and> (\<forall>p ok. Imwrite p ok \<in> set evs \<longrightarrow> p = current_dir d @ [frame_name (seq d)])"
    and "current_day d' = current_day d" and "current_dir d' = current_dir d"
    and "interval d' = interval d" and "dirs w' = dirs w"
  using assms
  by (auto simp: capture_frame_def Let_def split: option.splits imwrite_result.splits)

lemma frozen_after_no_finalize: "\<forall>e\<in>set evs. \<not> is_finalize e \<Longrightarrow> frozen_after F evs = F"
proof (induction evs)
  case Nil
  then show ?case by simp
next
  case (Cons e evs)
  then show ?case by (cases e) simp_all
qed

lemma stale_writes_none:
  "\<forall>e\<in>set evs. \<not> is_finalize e \<Longrightarrow>
   \<forall>p ok. Imwrite p ok \<in> set evs \<longrightarrow> butlast p \<notin> set F \<Longrightarrow>
   stale_writes F evs = []"
proof (induction evs)
  case Nil
  then show ?case by simp
next
  case (Cons e evs)
  from Cons.prems have "\<forall>e\<in>set evs. \<not> is_finalize e"
    and "\<forall>p ok. Imwrite p ok \<in> set evs \<longrightarrow> butlast p \<notin> set F" by auto
  then have ih: "stale_writes F evs = []" by (rule Cons.IH)
  show ?case
  proof (cases e)
    case (Finalize dy dir)
    with Cons.prems(1) show ?thesis by simp
  next
    case (Imwrite p ok)
    with Cons.prems(2) have "butlast p \<notin> set F" by auto
    with ih Imwrite show ?thesis by simp
  qed (simp_all add: ih)
qed

lemma rollover_inv:
  assumes "loop_inv cfg (now # clock) s"
  shows "loop_inv cfg clock (rollover cfg now s)"
proof -
  obtain d w where s: "s = (d, w)" by (cases s)
  from assms s have dir: "current_dir d = day_dir cfg (current_day d)"
    and nr: "no_return (current_day d # now # clock)"
    and clean: "stale_writes [] (events w) = []"
    and frozen: "\<forall>dir\<in>set (frozen_after [] (events w)). \<forall>t\<in>set (current_day d # now # clock). dir \<noteq> day_dir cfg t"
    by (simp_all add: loop_inv_def)
  show ?thesis
  proof (cases "now = current_day d")
    case True
    with nr have "no_return (current_day d # clock)" by simp
    with True dir clean frozen s show ?thesis
      by (simp add: rollover_same loop_inv_def)
  next
    case False
    from nr have nr': "no_return (now # clock)" by (rule no_return_tl)
    from nr False have away: "current_day d \<notin> set (now # clock)"
      by (intro no_return_notin) auto
    have clean': "stale_writes [] (events w @ [Finalize (current_day d) (current_dir d)]) = []"
      using clean by (simp add: stale_writes_append)
    have frozen': "\<forall>dir\<in>set (frozen_after [] (events w @ [Finalize (current_day d) (current_dir d)])).
                     \<forall>t\<in>set (now # clock). dir \<noteq> day_dir cfg t"
      using frozen away dir by (auto simp: frozen_after_append)
    from False nr' clean' frozen' s show ?thesis
      by (simp add: rollover_change loop_inv_def)
  qed
qed

lemma capture_inv:
  assumes inv: "loop_inv cfg clock s" and cap: "capture_frame sh s = Inr s'"
  shows "loop_inv cfg clock s'"
proof -
  obtain d w where s: "s = (d, w)" by (cases s)
  obtain d' w' where s': "s' = (d', w')" by (cases s')
  from inv s have dir: "current_dir d = day_dir cfg (current_day d)"
    and nr: "no_return (current_day d # clock)"
    and clean: "stale_writes [] (events w) = []"
    and frozen: "\<forall>dir\<in>set (frozen_after [] (events w)). \<forall>t\<in>set (current_day d # clock). dir \<noteq> day_dir cfg t"
    by (simp_all add: loop_inv_def)
  from cap s s' have c: "capture_frame sh (d, w) = Inr (d', w')" by simp
  from capture_frame_Inr(1)[OF c] obtain evs where
    evs: "events w' = events w @ evs" and nofin: "\<forall>e\<in>set evs. \<not> is_finalize e"
    and wr: "\<forall>p ok. Imwrite p ok \<in> set evs \<longrightarrow> p = current_dir d @ [frame_name (seq d)]"
    by blast
  have same: "frozen_after F evs = F" for F
    using nofin by (rule frozen_after_no_finalize)
  have here: "current_dir d \<notin> set (frozen_after [] (events w))"
    using frozen dir by auto
  have "\<forall>p ok. Imwrite p ok \<in> set evs \<longrightarrow> butlast p \<notin> set (frozen_after [] (events w))"
    using wr here by auto
  with nofin have none: "stale_writes (frozen_after [] (events w)) evs = []"
    by (rule stale_writes_none)
  have "stale_writes [] (events w') = []"
    using clean none by (simp add: evs stale_writes_append)
  moreover have "frozen_after [] (events w') = frozen_after [] (events w)"
    by (simp add: evs frozen_after_append same)
  ultimately show ?thesis
    using dir nr frozen capture_frame_Inr(2,3)[OF c] by (simp add: s' loop_inv_def)
qed

lemma wait_inv:
  assumes "loop_inv cfg clock (d, w)"
  shows "loop_inv cfg (drop k clock) (d, emit (replicate k Sleep) w)"
proof -
  from assms have "no_return (current_day d # drop k clock)"
    by (auto simp: loop_inv_def intro: no_return_drop)
  moreover have "set (drop k clock) \<subseteq> set clock" by (rule set_drop_subset)
  ultimately show ?thesis
    using assms by (auto simp: loop_inv_def stale_writes_append frozen_after_append)
qed

lemma loop_body_inv:
  assumes inv: "loop_inv cfg (now # clock) s"
    and body: "loop_body cfg sh now clock s = (r, rest, s')"
  shows "loop_inv cfg rest s'"
proof -
  let ?s1 = "rollover cfg now s"
  have inv1: "loop_inv cfg clock ?s1" using inv by (rule rollover_inv)
  show ?thesis
  proof (cases "capture_frame sh ?s1")
    case (Inl e)
    with body have "rest = clock" "s' = ?s1" by (simp_all add: loop_body_def Let_def)
    with inv1 show ?thesis by simp
  next
    case (Inr s2)
    obtain d2 w2 where s2: "s2 = (d2, w2)" by (cases s2)
    obtain k rest' where sp: "sleep_poll (nat (interval d2)) (current_day d2) clock = (k, rest')"
      by (cases "sleep_poll (nat (interval d2)) (current_day d2) clock")
    from inv1 Inr s2 have "loop_inv cfg clock (d2, w2)" by (auto intro: capture_inv)
    then have "loop_inv cfg (drop k clock) (d2, emit (replicate k Sleep) w2)" by (rule wait_inv)
    moreover from sp have "rest' = drop k clock" by (auto dest: sleep_poll_drop)
    moreover from body Inr s2 sp have "rest = rest'" "s' = (d2, emit (replicate k Sleep) w2)"
      by (simp_all add: loop_body_def Let_def)
    ultimately show ?thesis by simp
  qed
qed

lemma run_loop_inv:
  "loop_inv cfg clock s \<Longrightarrow> run_loop cfg shots clock s = (r, s') \<Longrightarrow> \<exists>rest. loop_inv cfg rest s'"
proof (induction cfg shots clock s rule: run_loop.induct)
  case (1 cfg sh shots now clock s)
  obtain r1 rest1 s1 where body: "loop_body cfg sh now clock s = (r1, rest1, s1)"
    by (cases "loop_body cfg sh now clock s") auto
  with "1.prems"(1) have inv1: "loop_inv cfg rest1 s1" by (auto intro: loop_body_inv)
  show ?case
  proof (cases r1)
    case None
    with body "1.prems"(2) have "run_loop cfg shots rest1 s1 = (r, s')" by simp
    with "1.IH"[OF body[symmetric] _ _ inv1] None show ?thesis by simp
  next
    case (Some e)
    with body "1.prems"(2) have "s' = s1" by simp
    with inv1 show ?thesis by blast
  qed
qed auto

lemma date_key_inj [simp]: "date_key a = date_key b \<longleftrightarrow> a = b"
  by (auto simp: date_key_def date.expand)

lemma sorted_no_return: "sorted (map date_key ds) \<Longrightarrow> no_return ds"
proof (induction ds)
  case Nil
  then show ?case by (simp add: no_return_def)
next
  case (Cons x xs)
  then have ih: "no_return xs" and le: "\<forall>y\<in>set xs. date_key x \<le> date_key y" by auto
  show ?case
  proof (cases xs)
    case Nil
    then show ?thesis by (simp add: no_return_def)
  next
    case (Cons y ys)
    show ?thesis
    proof (cases "x = y")
      case True
      with ih Cons show ?thesis by simp
    next
      case False
      have "x \<notin> set xs"
      proof
        assume "x \<in> set xs"
        with Cons.prems Cons have "date_key y \<le> date_key x" by auto
        moreover from le Cons have "date_key x \<le> date_key y" by simp
        ultimately have "date_key x = date_key y" by auto
        with False show False by simp
      qed
      with ih Cons False show ?thesis by (simp add: no_return_def)
    qed
  qed
qed

lemma loop_body_events:
  assumes body: "loop_body cfg sh now clock (d, w) = (r, rest, d', w')"
  shows "\<exists>evs. events w' =
            events w @ (if now \<noteq> current_day d then [Finalize (current_day d) (current_dir d)] else []) @ evs
          \<and> (\<forall>e\<in>set evs. \<not> is_finalize e)
          \<and> (\<forall>p ok. Imwrite p ok \<in> set evs \<longrightarrow>
                p = (if now \<noteq> current_day d then day_dir cfg now @ [frame_name 1]
                     else current_dir d @ [frame_name (seq d)]))
          \<and> length (filter (\<lambda>e. e = Sleep) evs) =
               (if r = None then fst (sleep_poll (nat (interval d)) now clock) else 0)"
    and "current_day d' = now"
    and "now \<noteq> current_day d \<Longrightarrow> current_dir d' = day_dir cfg now \<and> day_dir cfg now \<in> dirs w'"
proof -
  obtain d1 w1 where roll: "rollover cfg now (d, w) = (d1, w1)" by (cases "rollover cfg now (d, w)")
  have d1: "current_day d1 = now" "interval d1 = interval d"
    using rollover_current_day[of cfg now "(d, w)"] rollover_interval[of cfg now "(d, w)"] roll by simp_all
  have ev1: "events w1 = events w @ (if now \<noteq> current_day d then [Finalize (current_day d) (current_dir d)] else [])"
    using roll by (cases "now = current_day d") (auto simp: rollover_same rollover_change)
  have tgt: "current_dir d1 @ [frame_name (seq d1)] =
        (if now \<noteq> current_day d then day_dir cfg now @ [frame_name 1] else current_dir d @ [frame_name (seq d)])"
    using roll by (cases "now = current_day d") (auto simp: rollover_same rollover_change)
  have dir1: "now \<noteq> current_day d \<Longrightarrow> current_dir d1 = day_dir cfg now \<and> day_dir cfg now \<in> dirs w1"
    using roll by (auto simp: rollover_change)
  show "\<exists>evs. events w' =
            events w @ (if now \<noteq> current_day d then [Finalize (current_day d) (current_dir d)] else []) @ evs
          \<and> (\<forall>e\<in>set evs. \<not> is_finalize e)
          \<and> (\<forall>p ok. Imwrite p ok \<in> set evs \<longrightarrow>
                p = (if now \<noteq> current_day d then day_dir cfg now @ [frame_name 1]
                     else current_dir d @ [frame_name (seq d)]))
          \<and> length (filter (\<lambda>e. e = Sleep) evs) =
               (if r = None then fst (sleep_poll (nat (interval d)) now clock) else 0)"
    and "current_day d' = now"
    and "now \<noteq> current_day d \<Longrightarrow> current_dir d' = day_dir cfg now \<and> day_dir cfg now \<in> dirs w'"
  proof (atomize (full), cases "capture_frame sh (d1, w1)")
    case (Inl e)
    with body roll have "r = Some e" "d' = d1" "w' = w1" by (simp_all add: loop_body_def Let_def)
    with ev1 d1 dir1 show "(\<exists>evs. events w' =
            events w @ (if now \<noteq> current_day d then [Finalize (current_day d) (current_dir d)] else []) @ evs
          \<and> (\<forall>e\<in>set evs. \<not> is_finalize e)
          \<and> (\<forall>p ok. Imwrite p ok \<in> set evs \<longrightarrow>
                p = (if now \<noteq> current_day d then day_dir cfg now @ [frame_name 1]
                     else current_dir d @ [frame_name (seq d)]))
          \<and> length (filter (\<lambda>e. e = Sleep) evs) =
               (if r = None then fst (sleep_poll (nat (interval d)) now clock) else 0))
        \<and> current_day d' = now
        \<and> (now \<noteq> current_day d \<longrightarrow> current_dir d' = day_dir cfg now \<and> day_dir cfg now \<in> dirs w')"
      by simp
  next
    case (Inr s2)
    obtain d2 w2 where s2: "s2 = (d2, w2)" by (cases s2)
    with Inr have cap: "capture_frame sh (d1, w1) = Inr (d2, w2)" by simp
    obtain k rest' where sp: "sleep_poll (nat (interval d)) now clock = (k, rest')"
      by (cases "sleep_poll (nat (interval d)) now clock")
    from capture_frame_Inr(1)[OF cap] obtain evs where
      evs: "events w2 = events w1 @ evs" and nofin: "\<forall>e\<in>set evs. \<not> is_finalize e"
      and nosleep: "Sleep \<notin> set evs"
      and wr: "\<forall>p ok. Imwrite p ok \<in> set evs \<longrightarrow> p = current_dir d1 @ [frame_name (seq d1)]"
      by blast
    have same: "current_day d2 = now" "current_dir d2 = current_dir d1" "interval d2 = interval d" "dirs w2 = dirs w1"
      using capture_frame_Inr(2-5)[OF cap] d1 by simp_all
    from body roll cap sp same have res: "r = None" "d' = d2" "w' = emit (replicate k Sleep) w2"
      by (simp_all add: loop_body_def Let_def)
    have count: "length (filter (\<lambda>e. e = Sleep) (evs @ replicate k Sleep)) = k"
      using nosleep by (auto simp: filter_empty_conv)
    have a: "events w' =
            events w @ (if now \<noteq> current_day d then [Finalize (current_day d) (current_dir d)] else [])
              @ (evs @ replicate k Sleep)"
      using res evs ev1 by simp
    have b: "\<forall>e\<in>set (evs @ replicate k Sleep). \<not> is_finalize e"
      using nofin by auto
    have c: "\<forall>p ok. Imwrite p ok \<in> set (evs @ replicate k Sleep) \<longrightarrow>
                p = (if now \<noteq> current_day d then day_dir cfg now @ [frame_name 1]
                     else current_dir d @ [frame_name (seq d)])"
      using wr tgt by auto
    have e: "length (filter (\<lambda>e. e = Sleep) (evs @ replicate k Sleep)) =
               (if r = None then fst (sleep_poll (nat (interval d)) now clock) else 0)"
      using count res sp by simp
    from a b c e have "\<exists>evs. events w' =
            events w @ (if now \<noteq> current_day d then [Finalize (current_day d) (current_dir d)] else []) @ evs
          \<and> (\<forall>e\<in>set evs. \<not> is_finalize e)
          \<and> (\<forall>p ok. Imwrite p ok \<in> set evs \<longrightarrow>
                p = (if now \<noteq> current_day d then day_dir cfg now @ [frame_name 1]
                     else current_dir d @ [frame_name (seq d)]))
          \<and> length (filter (\<lambda>e. e = Sleep) evs) =
               (if r = None then fst (sleep_poll (nat (interval d)) now clock) else 0)"
      by blast
    with res same dir1 show "(\<exists>evs. events w' =
            events w @ (if now \<noteq> current_day d then [Finalize (current_day d) (current_dir d)] else []) @ evs
          \<and> (\<forall>e\<in>set evs. \<not> is_finalize e)
          \<and> (\<forall>p ok. Imwrite p ok \<in> set evs \<longrightarrow>
                p = (if now \<noteq> current_day d then day_dir cfg now @ [frame_name 1]
                     else current_dir d @ [frame_name (seq d)]))
          \<and> length (filter (\<lambda>e. e = Sleep) evs) =
               (if r = None then fst (sleep_poll (nat (interval d)) now clock) else 0))
        \<and> current_day d' = now
        \<and> (now \<noteq> current_day d \<longrightarrow> current_dir d' = day_dir cfg now \<and> day_dir cfg now \<in> dirs w')"
      by simp
  qed
qed

lemma sleep_poll_early:
  "sleep_poll n cur clock = (k, rest) \<Longrightarrow> i < n \<Longrightarrow> i < length clock \<Longrightarrow> clock ! i \<noteq> cur \<Longrightarrow> k \<le> i + 1"
proof (induction n cur clock arbitrary: k rest i rule: sleep_poll.induct)
  case (3 n cur t clock)
  show ?case
  proof (cases "t \<noteq> cur")
    case True
    with "3.prems"(1) show ?thesis by auto
  next
    case False
    obtain k' rest' where sp: "sleep_poll n cur clock = (k', rest')" by (cases "sleep_poll n cur clock")
    with "3.prems"(1) False have k: "k = Suc k'" by auto
    from False "3.prems"(4) obtain j where i: "i = Suc j" by (cases i) auto
    with "3.prems" have "j < n" "j < length clock" "clock ! j \<noteq> cur" by auto
    with "3.IH"[OF False sp] have "k' \<le> j + 1" by blast
    with k i show ?thesis by simp
  qed
qed auto

lemma sleep_poll_quiet:
  "sleep_poll n cur clock = (k, rest) \<Longrightarrow> i + 1 < k \<Longrightarrow> clock ! i = cur"
proof (induction n cur clock arbitrary: k rest i rule: sleep_poll.induct)
  case (3 n cur t clock)
  show ?case
  proof (cases "t \<noteq> cur")
    case True
    with "3.prems" show ?thesis by auto
  next
    case False
    obtain k' rest' where sp: "sleep_poll n cur clock = (k', rest')" by (cases "sleep_poll n cur clock")
    with "3.prems"(1) False have k: "k = Suc k'" by auto
    show ?thesis
    proof (cases i)
      case 0
      with False show ?thesis by simp
    next
      case (Suc j)
      with "3.prems"(2) k have "j + 1 < k'" by simp
      with "3.IH"[OF False sp] have "clock ! j = cur" by blast
      with Suc show ?thesis by simp
    qed
  qed
qed auto

lemma new_events_index:
  "events w' = events w @ e # evs \<Longrightarrow> events w' ! length (events w) = e \<and> length (events w) < length (events w')"
  by simp

lemma days_differ [simp]: "day1 \<noteq> day2" "day2 \<noteq> day1"
  by (simp_all add: day1_def day2_def)

lemma day_dir_eval:
  "day_dir cfg0 day1 = [''data'', ''images'', ''2024-03-09'']"
  "day_dir cfg0 day2 = [''data'', ''images'', ''2024-03-10'']"
  "day_dir cfg_nowait day1 = [''data'', ''images'', ''2024-03-09'']"
  "day_dir cfg_nowait day2 = [''data'', ''images'', ''2024-03-10'']"
  by (simp_all add: day_dir_def IMAGES_DIR_def cfg0_def cfg_nowait_def isoformat_day1 isoformat_day2)

lemma cfg_eval:
  "CAPTURE_INTERVAL_SECONDS cfg0 = 2" "CAPTURE_INTERVAL_SECONDS cfg_nowait = 0"
  "TELEGRAM_BOT_TOKEN cfg0 = ''token''" "TELEGRAM_CHAT_ID cfg0 = ''chat''"
  "MAX_TELEGRAM_MB cfg0 = 400" "BASE_DIR cfg0 = [''data'']" "DAILY_FPS cfg0 = 30"
  by (simp_all add: cfg0_def cfg_nowait_def)

lemmas loop_eval = cfg_eval loop_body_def rollover_def capture_frame_def finalize_day_async_def good_shot_def
  Let_def emit_def world0_def init_daemon_def run_def open_cam_def day_dir_eval
  frame_name_1 frame_name_Suc_0 frame_name_2 path_str_def

lemma backward_clock_run:
  "events (snd (snd (run cfg_nowait True [good_shot ''a'', good_shot ''b'', good_shot ''c'']
                      [day2, day1, day2] (init_daemon cfg_nowait day2 world0)))) =
     [LogInfo ''Timelapse daemon started. Ctrl+C to stop.'',
      Imwrite [''data'', ''images'', ''2024-03-10'', ''000001.jpg''] True,
      LogInfo ''Captured /data/images/2024-03-10/000001.jpg'',
      Finalize day2 [''data'', ''images'', ''2024-03-10''],
      Imwrite [''data'', ''images'', ''2024-03-09'', ''000001.jpg''] True,
      LogInfo ''Captured /data/images/2024-03-09/000001.jpg'',
      Finalize day1 [''data'', ''images'', ''2024-03-09''],
      Imwrite [''data'', ''images'', ''2024-03-10'', ''000001.jpg''] True,
      LogInfo ''Captured /data/images/2024-03-10/000001.jpg'']"
  by (simp add: loop_eval)

lemma run_no_stale_writes:
  assumes nr: "no_return (today # clock)" and quiet: "events w0 = []"
  shows "stale_writes [] (events (snd (snd (run cfg cam_ret shots clock (init_daemon cfg today w0))))) = []"
proof (cases cam_ret)
  case False
  then show ?thesis using quiet by (simp add: run_def open_cam_def init_daemon_def)
next
  case True
  define d1 where "d1 = (fst (init_daemon cfg today w0))\<lparr>running := True, cap := True\<rparr>"
  define w1 where "w1 = emit [LogInfo ''Timelapse daemon started. Ctrl+C to stop.''] (snd (init_daemon cfg today w0))"
  have inv: "loop_inv cfg clock (d1, w1)"
    using nr quiet by (simp add: loop_inv_def d1_def w1_def init_daemon_def)
  obtain r d2 w2 where loop: "run_loop cfg shots clock (d1, w1) = (r, d2, w2)"
    by (cases "run_loop cfg shots clock (d1, w1)") auto
  from run_loop_inv[OF inv loop] have "stale_writes [] (events w2) = []"
    by (auto simp: loop_inv_def)
  moreover have "run cfg cam_ret shots clock (init_daemon cfg today w0) = (r, d2\<lparr>running := False, cap := False\<rparr>, w2)"
    using True loop by (simp add: run_def open_cam_def init_daemon_def d1_def w1_def)
  ultimately show ?thesis by simp
qed

lemma loop_body_example:
  "loop_body cfg0 (good_shot ''a'') day2 [day2, day2] (daemon0, world0) =
     (None, [],
      daemon0\<lparr>current_day := day2, current_dir := [''data'', ''images'', ''2024-03-10''], seq := 2\<rparr>,
      \<lparr>files = [[''data'', ''images'', ''2024-03-10'', ''000001.jpg''] \<mapsto> ''a''],
       dirs = {[''data'', ''images'', ''2024-03-10'']},
       events = [Finalize day1 [''data'', ''images'', ''2024-03-09''],
                 Imwrite [''data'', ''images'', ''2024-03-10'', ''000001.jpg''] True,
                 LogInfo ''Captured /data/images/2024-03-10/000001.jpg'', Sleep, Sleep]\<rparr>)"
  by (simp add: loop_eval daemon0_eval numeral_2_eq_2)

lemma loop_body_example_wait:
  "loop_body cfg0 (good_shot ''a'') day1 [day2, day2] (daemon0, world0) =
     (None, [day2], daemon0\<lparr>seq := 2\<rparr>,
      \<lparr>files = [[''data'', ''images'', ''2024-03-09'', ''000001.jpg''] \<mapsto> ''a''],
       dirs = {},
       events = [Imwrite [''data'', ''images'', ''2024-03-09'', ''000001.jpg''] True,
                 LogInfo ''Captured /data/images/2024-03-09/000001.jpg'', Sleep]\<rparr>)"
  by (simp add: loop_eval daemon0_eval numeral_2_eq_2)

lemma rfind_dot_mp4: "rfind_dot (stem @ ''.mp4'') = int (length stem)"
  by (simp add: rfind_dot_def)

lemma py_suffix_mp4: "stem \<noteq> [] \<Longrightarrow> py_suffix (stem @ ''.mp4'') = ''.mp4''"
  by (simp add: py_suffix_def rfind_dot_mp4 Let_def)

lemma with_suffix_mp4:
  "stem \<noteq> [] \<Longrightarrow> with_suffix (p @ [stem @ ''.mp4'']) suffix = Some (p @ [stem @ suffix])"
  by (simp add: with_suffix_def py_suffix_mp4 Let_def)

lemma with_suffix_master:
  "with_suffix (p @ [''master.mp4'']) suffix = Some (p @ [''master'' @ suffix])"
  using with_suffix_mp4[of "''master''" p suffix] by simp

lemma isoformat_not_Nil [simp]: "isoformat dy \<noteq> []"
  by (simp add: isoformat_def)

lemma isoformat_not_master [simp]: "isoformat dy \<noteq> ''master''"
proof
  assume "isoformat dy = ''master''"
  then have "CHR ''-'' \<in> set ''master''" by (metis isoformat_def in_set_conv_decomp append_Cons append_Nil)
  then show False by simp
qed

lemma subprocess_run_other:
  "subprocess_run ev c w = (r, w') \<Longrightarrow> p \<noteq> cmd_output c \<Longrightarrow> files w' p = files w p"
  by (auto simp: subprocess_run_def split: proc_result.splits option.splits)

lemma subprocess_run_events:
  "subprocess_run ev c w = (r, w') \<Longrightarrow> events w' = events w @ [Ran c]"
  by (auto simp: subprocess_run_def split: proc_result.splits option.splits)

lemma subprocess_run_ok:
  "subprocess_run ev c w = (None, w') \<Longrightarrow> files w' (cmd_output c) \<noteq> None"
  by (auto simp: subprocess_run_def split: proc_result.splits option.splits)

lemma convert_all_other:
  "convert_all ev vs ts w = (r, ts', w') \<Longrightarrow> \<forall>v\<in>set vs. with_suffix v ''.ts'' \<noteq> Some p \<Longrightarrow>
   p \<notin> set ts \<Longrightarrow> files w' p = files w p \<and> p \<notin> set ts'"
proof (induction ev vs ts w arbitrary: r ts' w' rule: convert_all.induct)
  case (1 ev ts_files w)
  then show ?case by simp
next
  case (2 ev v vs ts_files w)
  show ?case
  proof (cases "with_suffix v ''.ts''")
    case None
    with "2.prems" show ?thesis by simp
  next
    case (Some ts)
    with "2.prems"(2) have ne: "p \<noteq> ts" by auto
    obtain r1 w1 where run: "subprocess_run ev (FfmpegToTs v ts) w = (r1, w1)"
      by (cases "subprocess_run ev (FfmpegToTs v ts) w")
    with ne have same: "files w1 p = files w p" by (auto dest: subprocess_run_other)
    show ?thesis
    proof (cases r1)
      case None
      with "2.prems"(1) Some run have rest: "convert_all ev vs (ts_files @ [ts]) w1 = (r, ts', w')" by simp
      from "2.prems"(2,3) ne have "\<forall>v\<in>set vs. with_suffix v ''.ts'' \<noteq> Some p" "p \<notin> set (ts_files @ [ts])"
        by auto
      with "2.IH"[OF Some run[symmetric] _ rest] None same show ?thesis by simp
    next
      case (Some e)
      with "2.prems" \<open>with_suffix v ''.ts'' = Some ts\<close> run same show ?thesis by simp
    qed
  qed
qed

lemma remove_all_other: "p \<notin> set ps \<Longrightarrow> files (remove_all ps w) p = files w p"
proof -
  have "p \<notin> set ps \<Longrightarrow> fold (\<lambda>p f. f(p := None)) ps f p = f p" for f
    by (induction ps arbitrary: f) auto
  then show "p \<notin> set ps \<Longrightarrow> files (remove_all ps w) p = files w p"
    by (simp add: remove_all_def)
qed

lemma concat_videos_fast_other:
  assumes run: "concat_videos_fast ev vs outpath w = (r, w')"
    and ts: "\<forall>v\<in>set vs. with_suffix v ''.ts'' \<noteq> Some p" and out: "p \<noteq> outpath"
  shows "files w' p = files w p"
proof -
  let ?w0 = "emit [LogInfo (''Concat '' @ digits (length vs) @ '' videos -> '' @ path_str outpath)] w"
  obtain r1 ts_files w1 where conv: "convert_all ev vs [] ?w0 = (r1, ts_files, w1)"
    by (cases "convert_all ev vs [] ?w0") auto
  from convert_all_other[OF conv ts] have keep: "files w1 p = files w p" and notin: "p \<notin> set ts_files"
    by simp_all
  show ?thesis
  proof (cases r1)
    case (Some e)
    with run conv have "w' = remove_all ts_files w1" by (simp add: concat_videos_fast_def)
    with keep notin show ?thesis by (simp add: remove_all_other)
  next
    case None
    obtain r2 w2 where cat: "subprocess_run ev (FfmpegConcat ts_files outpath) w1 = (r2, w2)"
      by (cases "subprocess_run ev (FfmpegConcat ts_files outpath) w1")
    with out have "files w2 p = files w1 p" by (auto dest: subprocess_run_other)
    moreover from run conv None cat have "w' = remove_all ts_files w2" by (simp add: concat_videos_fast_def)
    ultimately show ?thesis using keep notin by (simp add: remove_all_other)
  qed
qed

lemma merge_error_keeps_master:
  assumes there: "files w master_path = Some m"
    and merge: "merge_daily_into_master ev master_path day_video_path w = (Some e, w')"
    and ts: "with_suffix master_path ''.ts'' \<noteq> Some master_path"
            "with_suffix day_video_path ''.ts'' \<noteq> Some master_path"
    and tmp: "with_suffix master_path ''.new.mp4'' \<noteq> Some master_path"
  shows "files w' master_path = Some m"
proof (cases "with_suffix master_path ''.new.mp4''")
  case None
  with there merge show ?thesis by (simp add: merge_daily_into_master_def)
next
  case (Some temp_out)
  with tmp have ne: "master_path \<noteq> temp_out" by auto
  obtain r1 w1 where cat: "concat_videos_fast ev [master_path, day_video_path] temp_out w = (r1, w1)"
    by (cases "concat_videos_fast ev [master_path, day_video_path] temp_out w")
  from concat_videos_fast_other[OF cat _ ne] ts have keep: "files w1 master_path = files w master_path"
    by simp
  show ?thesis
  proof (cases r1)
    case (Some e1)
    with merge there \<open>with_suffix master_path ''.new.mp4'' = Some temp_out\<close> cat have "w' = w1"
      by (simp add: merge_daily_into_master_def)
    with keep there show ?thesis by simp
  next
    case None
    with merge there \<open>with_suffix master_path ''.new.mp4'' = Some temp_out\<close> cat
    have "os_replace temp_out master_path w1 = (Some e, w')"
      by (simp add: merge_daily_into_master_def)
    then have "w' = w1" by (auto simp: os_replace_def split: option.splits)
    with keep there show ?thesis by simp
  qed
qed

lemma with_suffix_day1:
  "with_suffix (VIDEOS_DIR cfg0 @ [''2024-03-09.mp4'']) ''.ts'' = Some (VIDEOS_DIR cfg0 @ [''2024-03-09.ts''])"
  using with_suffix_mp4[of "''2024-03-09''" "VIDEOS_DIR cfg0" "''.ts''"] by simp

lemma digits_Suc_Suc_0: "digits (Suc (Suc 0)) = ''2''"
  by (simp add: digits.simps[of "Suc (Suc 0)"] digit_char_def)

lemma path_str_videos: "concat (map ((#) CHR ''/'') (VIDEOS_DIR cfg0)) = ''/data/videos''"
  by (simp add: VIDEOS_DIR_def cfg0_def)

lemma failed_merge_example:
  "merge_daily_into_master concat_fails_env (VIDEOS_DIR cfg0 @ [''master.mp4''])
       (VIDEOS_DIR cfg0 @ [isoformat day1 @ ''.mp4'']) world_with_master =
     (Some CalledProcessError,
      \<lparr>files = [VIDEOS_DIR cfg0 @ [''master.mp4''] \<mapsto> ''M'',
                VIDEOS_DIR cfg0 @ [''2024-03-09.mp4''] \<mapsto> ''D'',
                VIDEOS_DIR cfg0 @ [''master.new.mp4''] \<mapsto> ''partial''],
       dirs = {},
       events = [LogInfo ''Concat 2 videos -> /data/videos/master.new.mp4'',
                 Ran (FfmpegToTs (VIDEOS_DIR cfg0 @ [''master.mp4'']) (VIDEOS_DIR cfg0 @ [''master.ts''])),
                 Ran (FfmpegToTs (VIDEOS_DIR cfg0 @ [''2024-03-09.mp4'']) (VIDEOS_DIR cfg0 @ [''2024-03-09.ts''])),
                 Ran (FfmpegConcat [VIDEOS_DIR cfg0 @ [''master.ts''], VIDEOS_DIR cfg0 @ [''2024-03-09.ts'']]
                        (VIDEOS_DIR cfg0 @ [''master.new.mp4'']))]\<rparr>)"
  by (simp add: merge_daily_into_master_def world_with_master_def with_suffix_master isoformat_day1
      concat_videos_fast_def with_suffix_day1 subprocess_run_def concat_fails_env_def emit_def
      remove_all_def digits_Suc_Suc_0 path_str_def path_str_videos)

lemma send_file_telegram_files:
  "send_file_telegram cfg ev p caption w = (r, w') \<Longrightarrow> files w' = files w"
  by (auto simp: send_file_telegram_def split: if_splits option.splits)

lemma send_file_telegram_no_ran:
  "send_file_telegram cfg ev p caption w = (r, w') \<Longrightarrow> filter is_ran (events w') = filter is_ran (events w)"
  by (auto simp: send_file_telegram_def split: if_splits option.splits)

lemma subprocess_run_no_send:
  "subprocess_run ev c w = (r, w') \<Longrightarrow> filter is_send (events w') = filter is_send (events w)"
  by (auto dest: subprocess_run_events)

lemma convert_all_no_send:
  "convert_all ev vs ts w = (r, ts', w') \<Longrightarrow> filter is_send (events w') = filter is_send (events w)"
proof (induction ev vs ts w arbitrary: r ts' w' rule: convert_all.induct)
  case (1 ev ts_files w)
  then show ?case by simp
next
  case (2 ev v vs ts_files w)
  show ?case
  proof (cases "with_suffix v ''.ts''")
    case None
    with "2.prems" show ?thesis by simp
  next
    case (Some ts)
    obtain r1 w1 where run: "subprocess_run ev (FfmpegToTs v ts) w = (r1, w1)"
      by (cases "subprocess_run ev (FfmpegToTs v ts) w")
    then have same: "filter is_send (events w1) = filter is_send (events w)" by (rule subprocess_run_no_send)
    show ?thesis
    proof (cases r1)
      case None
      with "2.prems" Some run have "convert_all ev vs (ts_files @ [ts]) w1 = (r, ts', w')" by simp
      with "2.IH"[OF Some run[symmetric]] None same show ?thesis by simp
    next
      case (Some e)
      with "2.prems" \<open>with_suffix v ''.ts'' = Some ts\<close> run same show ?thesis by simp
    qed
  qed
qed

lemma events_remove_all [simp]: "events (remove_all ps w) = events w"
  by (simp add: remove_all_def)

lemma concat_videos_fast_no_send:
  assumes "concat_videos_fast ev vs outpath w = (r, w')"
  shows "filter is_send (events w') = filter is_send (events w)"
proof -
  let ?w0 = "emit [LogInfo (''Concat '' @ digits (length vs) @ '' videos -> '' @ path_str outpath)] w"
  obtain r1 ts_files w1 where conv: "convert_all ev vs [] ?w0 = (r1, ts_files, w1)"
    by (cases "convert_all ev vs [] ?w0") auto
  then have one: "filter is_send (events w1) = filter is_send (events w)"
    by (auto dest: convert_all_no_send)
  show ?thesis
  proof (cases r1)
    case (Some e)
    with assms conv one show ?thesis by (auto simp: concat_videos_fast_def)
  next
    case None
    obtain r2 w2 where cat: "subprocess_run ev (FfmpegConcat ts_files outpath) w1 = (r2, w2)"
      by (cases "subprocess_run ev (FfmpegConcat ts_files outpath) w1")
    with assms conv None one show ?thesis
      by (auto simp: concat_videos_fast_def dest: subprocess_run_no_send)
  qed
qed

lemma os_replace_events: "os_replace src dst w = (r, w') \<Longrightarrow> events w' = events w"
  by (auto simp: os_replace_def split: option.splits)

lemma os_replace_ok: "os_replace src dst w = (None, w') \<Longrightarrow> files w' dst \<noteq> None"
  by (auto simp: os_replace_def split: option.splits)

lemma merge_no_send:
  assumes "merge_daily_into_master ev master_path day_video_path w = (r, w')"
  shows "filter is_send (events w') = filter is_send (events w)"
proof (cases "files w master_path = None")
  case True
  with assms show ?thesis by (auto simp: merge_daily_into_master_def dest: subprocess_run_no_send)
next
  case False
  show ?thesis
  proof (cases "with_suffix master_path ''.new.mp4''")
    case None
    with assms False show ?thesis by (simp add: merge_daily_into_master_def)
  next
    case (Some temp_out)
    obtain r1 w1 where cat: "concat_videos_fast ev [master_path, day_video_path] temp_out w = (r1, w1)"
      by (cases "concat_videos_fast ev [master_path, day_video_path] temp_out w")
    then have one: "filter is_send (events w1) = filter is_send (events w)"
      by (rule concat_videos_fast_no_send)
    from assms False Some cat one show ?thesis
      by (cases r1) (auto simp: merge_daily_into_master_def dest: os_replace_events)
  qed
qed

lemma merge_ok_master_exists:
  assumes "merge_daily_into_master ev master_path day_video_path w = (None, w')"
  shows "files w' master_path \<noteq> None"
proof (cases "files w master_path = None")
  case True
  with assms have "subprocess_run ev (Cp day_video_path master_path) w = (None, w')"
    by (simp add: merge_daily_into_master_def)
  from subprocess_run_ok[OF this] show ?thesis by simp
next
  case False
  with assms obtain temp_out w1 where "os_replace temp_out master_path w1 = (None, w')"
    by (auto simp: merge_daily_into_master_def split: option.splits prod.splits)
  then show ?thesis by (rule os_replace_ok)
qed

lemma make_video_ok_exists:
  "make_video_from_images ev frames_dir out_mp4 fps w = (None, w') \<Longrightarrow> files w' out_mp4 \<noteq> None"
  using subprocess_run_ok[of ev "FfmpegImages frames_dir fps out_mp4"]
  by (auto simp: make_video_from_images_def)

lemma make_video_events:
  "make_video_from_images ev frames_dir out_mp4 fps w = (r, w') \<Longrightarrow>
   filter is_send (events w') = filter is_send (events w)"
  by (auto simp: make_video_from_images_def dest!: subprocess_run_events)

lemma failed_delivery_example:
  "finalize_job cfg0 send_fails_env day1 (day_dir cfg0 day1) world0 =
     \<lparr>files = [VIDEOS_DIR cfg0 @ [''2024-03-09.mp4''] \<mapsto> ''/data/images/2024-03-09''],
      dirs = {},
      events = [LogInfo ''Making video for /data/images/2024-03-09 -> /data/videos/2024-03-09.mp4'',
                Ran (FfmpegImages (day_dir cfg0 day1) 30 (VIDEOS_DIR cfg0 @ [''2024-03-09.mp4''])),
                SendVideo (VIDEOS_DIR cfg0 @ [''2024-03-09.mp4'']) ''Timelapse 2024-03-09'',
                LogException TelegramError]\<rparr>"
  by (simp add: finalize_job_def Let_def make_video_from_images_def subprocess_run_def send_fails_env_def
      emit_def world0_def isoformat_day1 send_file_telegram_def cfg_eval path_str_def path_str_videos
      day_dir_eval)

lemma make_video_example:
  "make_video_from_images send_fails_env (day_dir cfg0 day1) (VIDEOS_DIR cfg0 @ [isoformat day1 @ ''.mp4''])
       (DAILY_FPS cfg0) world0 =
     (None,
      \<lparr>files = [VIDEOS_DIR cfg0 @ [''2024-03-09.mp4''] \<mapsto> ''/data/images/2024-03-09''],
       dirs = {},
       events = [LogInfo ''Making video for /data/images/2024-03-09 -> /data/videos/2024-03-09.mp4'',
                 Ran (FfmpegImages (day_dir cfg0 day1) 30 (VIDEOS_DIR cfg0 @ [''2024-03-09.mp4'']))]\<rparr>)"
  by (simp add: make_video_from_images_def subprocess_run_def send_fails_env_def
      emit_def world0_def isoformat_day1 cfg_eval path_str_def path_str_videos day_dir_eval)

lemma send_fails_example:
  "send_file_telegram cfg0 send_fails_env (VIDEOS_DIR cfg0 @ [isoformat day1 @ ''.mp4''])
       (''Timelapse '' @ isoformat day1)
       \<lparr>files = [VIDEOS_DIR cfg0 @ [''2024-03-09.mp4''] \<mapsto> ''/data/images/2024-03-09''],
        dirs = {},
        events = [LogInfo ''Making video for /data/images/2024-03-09 -> /data/videos/2024-03-09.mp4'',
                  Ran (FfmpegImages (day_dir cfg0 day1) 30 (VIDEOS_DIR cfg0 @ [''2024-03-09.mp4'']))]\<rparr> =
     (Some TelegramError,
      \<lparr>files = [VIDEOS_DIR cfg0 @ [''2024-03-09.mp4''] \<mapsto> ''/data/images/2024-03-09''],
       dirs = {},
       events = [LogInfo ''Making video for /data/images/2024-03-09 -> /data/videos/2024-03-09.mp4'',
                 Ran (FfmpegImages (day_dir cfg0 day1) 30 (VIDEOS_DIR cfg0 @ [''2024-03-09.mp4''])),
                 SendVideo (VIDEOS_DIR cfg0 @ [''2024-03-09.mp4'']) ''Timelapse 2024-03-09'']\<rparr>)"
  by (simp add: send_file_telegram_def send_fails_env_def emit_def isoformat_day1 cfg_eval)

text \<open>
  A job that runs its merge with no other job in between does what
  \<^verbatim>\<open>merge_daily_into_master\<close> does, in any environment: six steps reach the return, with the
  same exception or none and the same files and events.
\<close>

lemma merge_steps_alone:
  "m_at (fst (merge_steps ev 6 (start_merge mp dp, w))) = AtReturn
   \<and> (m_raised (fst (merge_steps ev 6 (start_merge mp dp, w))), snd (merge_steps ev 6 (start_merge mp dp, w)))
       = merge_daily_into_master ev mp dp w"
proof (cases "files w mp")
  case None
  obtain r w1 where cp: "subprocess_run ev (Cp dp mp) w = (r, w1)"
    by (cases "subprocess_run ev (Cp dp mp) w")
  from None cp show ?thesis
    by (simp add: eval_nat_numeral merge_step_def start_merge_def merge_daily_into_master_def)
next
  case (Some m)
  note there = this
  show ?thesis
  proof (cases "with_suffix mp ''.new.mp4''")
    case None
    with there show ?thesis
      by (simp add: eval_nat_numeral merge_step_def start_merge_def merge_daily_into_master_def)
  next
    case (Some tmp)
    note tmp = this
    let ?w0 = "emit [LogInfo (''Concat '' @ digits (length [mp, dp]) @ '' videos -> '' @ path_str tmp)] w"
    show ?thesis
    proof (cases "with_suffix mp ''.ts''")
      case None
      with there tmp show ?thesis
        by (simp add: eval_nat_numeral merge_step_def remux_step_def start_merge_def
            merge_daily_into_master_def concat_videos_fast_def)
    next
      case (Some ts1)
      note ts1 = this
      obtain r1 w1 where s1: "subprocess_run ev (FfmpegToTs mp ts1) ?w0 = (r1, w1)"
        by (cases "subprocess_run ev (FfmpegToTs mp ts1) ?w0")
      show ?thesis
      proof (cases r1)
        case (Some e)
        with there tmp ts1 s1 show ?thesis
          by (simp add: eval_nat_numeral merge_step_def remux_step_def start_merge_def
              merge_daily_into_master_def concat_videos_fast_def)
      next
        case None
        note ok1 = this
        show ?thesis
        proof (cases "with_suffix dp ''.ts''")
          case None
          with there tmp ts1 s1 ok1 show ?thesis
            by (simp add: eval_nat_numeral merge_step_def remux_step_def start_merge_def
                merge_daily_into_master_def concat_videos_fast_def)
        next
          case (Some ts2)
          note ts2 = this
          obtain r2 w2 where s2: "subprocess_run ev (FfmpegToTs dp ts2) w1 = (r2, w2)"
            by (cases "subprocess_run ev (FfmpegToTs dp ts2) w1")
          show ?thesis
          proof (cases r2)
            case (Some e)
            with there tmp ts1 s1 ok1 ts2 s2 show ?thesis
              by (simp add: eval_nat_numeral merge_step_def remux_step_def start_merge_def
                  merge_daily_into_master_def concat_videos_fast_def)
          next
            case None
            note ok2 = this
            obtain r3 w3 where s3: "subprocess_run ev (FfmpegConcat [ts1, ts2] tmp) w2 = (r3, w3)"
              by (cases "subprocess_run ev (FfmpegConcat [ts1, ts2] tmp) w2")
            obtain r4 w4 where s4: "os_replace tmp mp (remove_all [ts1, ts2] w3) = (r4, w4)"
              by (cases "os_replace tmp mp (remove_all [ts1, ts2] w3)")
            from there tmp ts1 s1 ok1 ts2 s2 ok2 s3 s4 show ?thesis
              by (cases r3)
                (simp_all add: eval_nat_numeral merge_step_def remux_step_def start_merge_def
                  merge_daily_into_master_def concat_videos_fast_def)
          qed
        qed
      qed
    qed
  qed
qed

lemma merge_step_return: "m_at t = AtReturn \<Longrightarrow> merge_step ev t w = (t, w)"
  by (simp add: merge_step_def)

lemma interleave_append:
  "interleave ev (xs @ ys) s = interleave ev ys (interleave ev xs s)"
proof (induction xs arbitrary: s)
  case Nil
  then show ?case by simp
next
  case (Cons x xs)
  obtain ta tb w where s: "s = (ta, tb, w)" by (cases s)
  obtain ta' wa where a: "merge_step ev ta w = (ta', wa)" by (cases "merge_step ev ta w")
  obtain tb' wb where b: "merge_step ev tb w = (tb', wb)" by (cases "merge_step ev tb w")
  from Cons s a b show ?case by simp
qed

lemma interleave_first_only:
  "interleave ev (replicate n True) (ta, tb, w) =
     (fst (merge_steps ev n (ta, w)), tb, snd (merge_steps ev n (ta, w)))"
proof (induction n arbitrary: ta w)
  case 0
  then show ?case by simp
next
  case (Suc n)
  obtain ta' w' where a: "merge_step ev ta w = (ta', w')" by (cases "merge_step ev ta w")
  with Suc show ?case by simp
qed

lemma interleave_second_only:
  "interleave ev (replicate n False) (ta, tb, w) =
     (ta, fst (merge_steps ev n (tb, w)), snd (merge_steps ev n (tb, w)))"
proof (induction n arbitrary: tb w)
  case 0
  then show ?case by simp
next
  case (Suc n)
  obtain tb' w' where b: "merge_step ev tb w = (tb', w')" by (cases "merge_step ev tb w")
  with Suc show ?case by simp
qed

lemma digit_char_is_digit: "k < 10 \<Longrightarrow> digit_char k \<in> set ''0123456789''"
  unfolding digit_char_def by (rule nth_mem) simp

lemma digits_are_digits: "set (digits n) \<subseteq> set ''0123456789''"
proof (induction n rule: digits.induct)
  case (1 n)
  show ?case
  proof (cases "n < 10")
    case True
    then have "digits n = [digit_char n]" by (simp add: digits.simps[of n])
    with digit_char_is_digit[OF True] show ?thesis by simp
  next
    case False
    with 1 have ih: "set (digits (n div 10)) \<subseteq> set ''0123456789''" by simp
    have "digit_char (n mod 10) \<in> set ''0123456789''" by (rule digit_char_is_digit) simp
    moreover from False have "digits n = digits (n div 10) @ [digit_char (n mod 10)]"
      by (simp add: digits.simps[of n])
    ultimately show ?thesis using ih by simp
  qed
qed

lemma fmt_0d_are_digits: "set (fmt_0d w n) \<subseteq> set ''0123456789''"
  using digits_are_digits[of n] by (auto simp: fmt_0d_def zfill_def)

lemma fmt_0d_not_Nil: "fmt_0d w n \<noteq> []"
  using length_digits_pos[of n] by (auto simp: fmt_0d_def zfill_def)

lemma isoformat_starts_with_digit: "\<exists>c cs. isoformat dy = c # cs \<and> c \<in> set ''0123456789''"
proof -
  obtain c cs where y: "fmt_0d 4 (year dy) = c # cs"
    using fmt_0d_not_Nil[of 4 "year dy"] by (cases "fmt_0d 4 (year dy)") auto
  with fmt_0d_are_digits[of 4 "year dy"] have "c \<in> set ''0123456789''" by auto
  with y show ?thesis by (auto simp: isoformat_def)
qed

lemma iso_name_not_m [simp]:
  "isoformat dy @ s \<noteq> CHR ''m'' # r" "CHR ''m'' # r \<noteq> isoformat dy @ s"
  using isoformat_starts_with_digit[of dy] by auto

lemma iso_ts_not_mp4 [simp]:
  "isoformat a @ ''.ts'' \<noteq> isoformat b @ ''.mp4''" "isoformat b @ ''.mp4'' \<noteq> isoformat a @ ''.ts''"
proof -
  have "last (isoformat a @ ''.ts'') \<noteq> last (isoformat b @ ''.mp4'')" by simp
  then show "isoformat a @ ''.ts'' \<noteq> isoformat b @ ''.mp4''" "isoformat b @ ''.mp4'' \<noteq> isoformat a @ ''.ts''"
    by metis+
qed

lemma ideal_merge:
  assumes master: "files w (VIDEOS_DIR cfg @ [''master.mp4'']) = Some m"
    and daily: "files w (VIDEOS_DIR cfg @ [isoformat dy @ ''.mp4'']) = Some v"
  shows "fst (merge_daily_into_master ideal_env (VIDEOS_DIR cfg @ [''master.mp4''])
                (VIDEOS_DIR cfg @ [isoformat dy @ ''.mp4'']) w) = None"
    and "files (snd (merge_daily_into_master ideal_env (VIDEOS_DIR cfg @ [''master.mp4''])
                (VIDEOS_DIR cfg @ [isoformat dy @ ''.mp4'']) w)) (VIDEOS_DIR cfg @ [''master.mp4'']) = Some (m @ v)"
    and "files (snd (merge_daily_into_master ideal_env (VIDEOS_DIR cfg @ [''master.mp4''])
                (VIDEOS_DIR cfg @ [isoformat dy @ ''.mp4'']) w)) (VIDEOS_DIR cfg @ [isoformat dz @ ''.mp4''])
         = files w (VIDEOS_DIR cfg @ [isoformat dz @ ''.mp4''])"
  using master daily
  by (simp_all add: merge_daily_into_master_def with_suffix_master with_suffix_mp4 concat_videos_fast_def
      subprocess_run_def ideal_env_def emit_def remove_all_def os_replace_def)

lemma with_suffix_day2:
  "with_suffix (VIDEOS_DIR cfg0 @ [''2024-03-10.mp4'']) ''.ts'' = Some (VIDEOS_DIR cfg0 @ [''2024-03-10.ts''])"
  using with_suffix_mp4[of "''2024-03-10''" "VIDEOS_DIR cfg0" "''.ts''"] by simp

lemmas merge_eval = merge_step_def remux_step_def start_merge_def subprocess_run_def ideal_env_def emit_def
  remove_all_def os_replace_def with_suffix_master with_suffix_day1 with_suffix_day2 world_two_days_def
  digits_Suc_Suc_0 path_str_def path_str_videos

lemma capture_frame_failed_read:
  "grabbed sh = None \<Longrightarrow>
   capture_frame sh (d, w) = Inr (d, emit [LogWarning ''Failed to capture frame.''] w)"
  by (simp add: capture_frame_def)

lemma failed_read_not_successful [simp]: "\<not> successful failed_read"
  by (simp add: successful_def failed_read_def)

lemma stored_if_grabbed_cases:
  "stored_if_grabbed sh \<Longrightarrow> successful sh \<or> grabbed sh = None"
  by (auto simp: stored_if_grabbed_def successful_def)

lemma capture_frames_stored:
  "list_all stored_if_grabbed shots \<Longrightarrow>
   \<exists>d' w'. capture_frames shots (d, w) = (None, d', w')
      \<and> d' = d\<lparr>seq := seq d + length (filter successful shots)\<rparr>
      \<and> (\<forall>k<length (filter successful shots).
            files w' (current_dir d @ [frame_name (seq d + k)]) = grabbed (filter successful shots ! k))
      \<and> (\<forall>p. (\<forall>k<length (filter successful shots). p \<noteq> current_dir d @ [frame_name (seq d + k)])
            \<longrightarrow> files w' p = files w p)"
proof (induction shots arbitrary: d w)
  case Nil
  then show ?case by simp
next
  case (Cons sh shots)
  from Cons.prems have this_one: "stored_if_grabbed sh" and rest: "list_all stored_if_grabbed shots"
    by simp_all
  let ?good = "filter successful shots"
  show ?case
  proof (cases "successful sh")
    case False
    with this_one have none: "grabbed sh = None" by (auto dest: stored_if_grabbed_cases)
    define w1 where "w1 = emit [LogWarning ''Failed to capture frame.''] w"
    have step: "capture_frame sh (d, w) = Inr (d, w1)"
      using none by (simp add: capture_frame_failed_read w1_def)
    from Cons.IH[OF rest, of d w1] obtain d' w' where
      run: "capture_frames shots (d, w1) = (None, d', w')" and
      d': "d' = d\<lparr>seq := seq d + length ?good\<rparr>" and
      hit: "\<forall>k<length ?good. files w' (current_dir d @ [frame_name (seq d + k)]) = grabbed (?good ! k)" and
      miss: "\<forall>p. (\<forall>k<length ?good. p \<noteq> current_dir d @ [frame_name (seq d + k)]) \<longrightarrow> files w' p = files w1 p"
      by blast
    have "capture_frames (sh # shots) (d, w) = (None, d', w')" using step run by simp
    moreover have "filter successful (sh # shots) = ?good" using False by simp
    moreover have "files w1 = files w" by (simp add: w1_def)
    ultimately show ?thesis using d' hit miss by simp
  next
    case True
    let ?f = "current_dir d @ [frame_name (seq d)]"
    define d1 where "d1 = d\<lparr>seq := seq d + 1\<rparr>"
    define w1 where "w1 = emit [Imwrite ?f True, LogInfo (''Captured '' @ path_str ?f)]
              (w\<lparr>files := (files w)(?f \<mapsto> the (grabbed sh))\<rparr>)"
    have step: "capture_frame sh (d, w) = Inr (d1, w1)"
      using True by (simp add: capture_frame_successful d1_def w1_def)
    have good: "filter successful (sh # shots) = sh # ?good" using True by simp
    from Cons.IH[OF rest, of d1 w1] obtain d' w' where
      run: "capture_frames shots (d1, w1) = (None, d', w')" and
      d': "d' = d1\<lparr>seq := seq d1 + length ?good\<rparr>" and
      hit: "\<forall>k<length ?good. files w' (current_dir d1 @ [frame_name (seq d1 + k)]) = grabbed (?good ! k)" and
      miss: "\<forall>p. (\<forall>k<length ?good. p \<noteq> current_dir d1 @ [frame_name (seq d1 + k)]) \<longrightarrow> files w' p = files w1 p"
      by blast
    have first: "files w' ?f = grabbed sh"
    proof -
      have "files w' ?f = files w1 ?f" using miss by (simp add: d1_def)
      also have "\<dots> = grabbed sh" using True by (auto simp: w1_def successful_def)
      finally show ?thesis .
    qed
    have a: "\<forall>k<length (sh # ?good). files w' (current_dir d @ [frame_name (seq d + k)]) = grabbed ((sh # ?good) ! k)"
    proof (intro allI impI)
      fix k assume "k < length (sh # ?good)"
      then show "files w' (current_dir d @ [frame_name (seq d + k)]) = grabbed ((sh # ?good) ! k)"
        using first hit by (cases k) (simp_all add: d1_def)
    qed
    have b: "\<forall>p. (\<forall>k<length (sh # ?good). p \<noteq> current_dir d @ [frame_name (seq d + k)]) \<longrightarrow> files w' p = files w p"
    proof (intro allI impI)
      fix p assume ne: "\<forall>k<length (sh # ?good). p \<noteq> current_dir d @ [frame_name (seq d + k)]"
      then have "p \<noteq> ?f" by force
      moreover have "\<forall>k<length ?good. p \<noteq> current_dir d1 @ [frame_name (seq d1 + k)]"
      proof (intro allI impI)
        fix k assume "k < length ?good"
        then have "Suc k < length (sh # ?good)" by simp
        with ne have "p \<noteq> current_dir d @ [frame_name (seq d + Suc k)]" by blast
        then show "p \<noteq> current_dir d1 @ [frame_name (seq d1 + k)]" by (simp add: d1_def)
      qed
      ultimately show "files w' p = files w p" using miss by (simp add: w1_def)
    qed
    have "capture_frames (sh # shots) (d, w) = (None, d', w')" using step run by simp
    moreover have "d' = d\<lparr>seq := seq d + length (sh # ?good)\<rparr>" using d' by (simp add: d1_def)
    ultimately show ?thesis unfolding good using a b by blast
  qed
qed

chapter \<open>The claims\<close>

text \<open>
  Claim C1, as amended. In a round of the loop whose reading of the date differs from the
  bucket's, the finalizer is started exactly once, first of all, with the old bucket's day
  and directory; the new bucket has the new date, a directory that differs from the old one
  and exists, and \<open>seq = 1\<close>, and the frame of that round can only go to file number 1 of the
  new directory. A round whose reading equals the bucket's date starts no finalizer. Over a
  whole run no frame is written into a directory after its finalizer was started, provided
  the date never again reads as a date it has moved away from; readings that never go back
  meet this.
\<close>

theorem rollover_dispatches_once_then_swaps_bucket:
  "(loop_body cfg sh now clock (d, w) = (r, rest, d', w') \<longrightarrow> now \<noteq> current_day d \<longrightarrow>
      current_dir d = day_dir cfg (current_day d) \<longrightarrow>
        (\<exists>evs. events w' = events w @ Finalize (current_day d) (current_dir d) # evs
           \<and> (\<forall>e\<in>set evs. \<not> is_finalize e)
           \<and> (\<forall>p ok. Imwrite p ok \<in> set evs \<longrightarrow> p = day_dir cfg now @ [frame_name 1]))
        \<and> seq (fst (rollover cfg now (d, w))) = 1
        \<and> current_day d' = now \<and> current_dir d' = day_dir cfg now
        \<and> current_dir d' \<noteq> current_dir d \<and> current_dir d' \<in> dirs w')
   \<and> (loop_body cfg sh now clock (d, w) = (r, rest, d', w') \<longrightarrow> now = current_day d \<longrightarrow>
        (\<exists>evs. events w' = events w @ evs \<and> (\<forall>e\<in>set evs. \<not> is_finalize e)))
   \<and> (no_return (today # clock0) \<longrightarrow> events w0 = [] \<longrightarrow>
        stale_writes [] (events (snd (snd (run cfg cam_ret shots clock0 (init_daemon cfg today w0))))) = [])
   \<and> (sorted (map date_key (today # clock0)) \<longrightarrow> no_return (today # clock0))"
proof (intro conjI impI)
  assume body: "loop_body cfg sh now clock (d, w) = (r, rest, d', w')"
    and changed: "now \<noteq> current_day d" and dir: "current_dir d = day_dir cfg (current_day d)"
  from loop_body_events(1)[OF body] changed
  show "\<exists>evs. events w' = events w @ Finalize (current_day d) (current_dir d) # evs
           \<and> (\<forall>e\<in>set evs. \<not> is_finalize e)
           \<and> (\<forall>p ok. Imwrite p ok \<in> set evs \<longrightarrow> p = day_dir cfg now @ [frame_name 1])"
    by auto
  show "seq (fst (rollover cfg now (d, w))) = 1" using changed by (simp add: rollover_change)
  show "current_day d' = now" by (rule loop_body_events(2)[OF body])
  show new: "current_dir d' = day_dir cfg now" using loop_body_events(3)[OF body changed] by simp
  show "current_dir d' \<noteq> current_dir d" using new dir changed by simp
  show "current_dir d' \<in> dirs w'" using loop_body_events(3)[OF body changed] by simp
next
  assume body: "loop_body cfg sh now clock (d, w) = (r, rest, d', w')" and same: "now = current_day d"
  from loop_body_events(1)[OF body] same
  show "\<exists>evs. events w' = events w @ evs \<and> (\<forall>e\<in>set evs. \<not> is_finalize e)" by auto
next
  assume "no_return (today # clock0)" "events w0 = []"
  then show "stale_writes [] (events (snd (snd (run cfg cam_ret shots clock0 (init_daemon cfg today w0))))) = []"
    by (rule run_no_stale_writes)
next
  assume "sorted (map date_key (today # clock0))"
  then show "no_return (today # clock0)" by (rule sorted_no_return)
qed

theorem rollover_dispatches_once_then_swaps_bucket_witness:
  "day2 \<noteq> current_day daemon0
   \<and> current_dir daemon0 = day_dir cfg0 (current_day daemon0)
   \<and> fst (loop_body cfg0 (good_shot ''a'') day2 [day2, day2] (daemon0, world0)) = None
   \<and> seq (fst (rollover cfg0 day2 (daemon0, world0))) = 1
   \<and> current_dir (fst (snd (snd (loop_body cfg0 (good_shot ''a'') day2 [day2, day2] (daemon0, world0)))))
       = [''data'', ''images'', ''2024-03-10'']
   \<and> [''data'', ''images'', ''2024-03-10''] \<noteq> current_dir daemon0
   \<and> no_return (day1 # [day1, day1, day1, day2, day2])
   \<and> sorted (map date_key (day1 # [day1, day1, day1, day2, day2]))
   \<and> events world0 = []
   \<and> stale_writes [] (events (snd (snd (run cfg0 True [good_shot ''a'', good_shot ''b'']
         [day1, day1, day1, day2, day2] (init_daemon cfg0 day1 world0))))) = []"
proof -
  let ?d' = "daemon0\<lparr>current_day := day2, current_dir := [''data'', ''images'', ''2024-03-10''], seq := 2\<rparr>"
  let ?w' = "\<lparr>files = [[''data'', ''images'', ''2024-03-10'', ''000001.jpg''] \<mapsto> ''a''],
       dirs = {[''data'', ''images'', ''2024-03-10'']},
       events = [Finalize day1 [''data'', ''images'', ''2024-03-09''],
                 Imwrite [''data'', ''images'', ''2024-03-10'', ''000001.jpg''] True,
                 LogInfo ''Captured /data/images/2024-03-10/000001.jpg'', Sleep, Sleep]\<rparr>"
  have h1: "day2 \<noteq> current_day daemon0" by (simp add: daemon0_eval)
  have h2: "current_dir daemon0 = day_dir cfg0 (current_day daemon0)" by (simp add: daemon0_eval day_dir_eval)
  have h3: "sorted (map date_key (day1 # [day1, day1, day1, day2, day2]))"
    by (simp add: date_key_def day1_def day2_def)
  have h4: "events world0 = []" by (simp add: world0_def)
  note inst = rollover_dispatches_once_then_swaps_bucket[of cfg0 "good_shot ''a''" day2 "[day2, day2]" daemon0 world0
    None "[]" "?d'" "?w'" day1 "[day1, day1, day1, day2, day2]" world0 True "[good_shot ''a'', good_shot ''b'']"]
  from inst h3 have h5: "no_return (day1 # [day1, day1, day1, day2, day2])" by blast
  from inst h5 h4 have run: "stale_writes [] (events (snd (snd (run cfg0 True [good_shot ''a'', good_shot ''b'']
         [day1, day1, day1, day2, day2] (init_daemon cfg0 day1 world0))))) = []" by blast
  from inst loop_body_example h1 h2 have one: "seq (fst (rollover cfg0 day2 (daemon0, world0))) = 1"
    and new: "current_dir ?d' = day_dir cfg0 day2" and differs: "current_dir ?d' \<noteq> current_dir daemon0"
    by blast+
  have a: "fst (loop_body cfg0 (good_shot ''a'') day2 [day2, day2] (daemon0, world0)) = None"
    and b: "current_dir (fst (snd (snd (loop_body cfg0 (good_shot ''a'') day2 [day2, day2] (daemon0, world0)))))
       = [''data'', ''images'', ''2024-03-10'']"
    by (simp_all add: loop_body_example)
  from differs have c: "[''data'', ''images'', ''2024-03-10''] \<noteq> current_dir daemon0" by simp
  from h1 h2 a one b c h5 h3 h4 run show ?thesis by (intro conjI)
qed

text \<open>
  Without that proviso the claim fails: the comparison is \<^verbatim>\<open>now != self.current_day\<close>, so a
  date that goes back and forth (a clock set back across midnight) reopens a directory that
  was handed to the finalizer. With no wait between captures and the readings 10th, 9th,
  10th of March, the third round writes \<^verbatim>\<open>000001.jpg\<close> into the directory of the 10th after
  its finalizer was started in the second round.
\<close>

theorem clock_set_back_counterexample:
  "stale_writes []
     (events (snd (snd (run cfg_nowait True [good_shot ''a'', good_shot ''b'', good_shot ''c'']
                         [day2, day1, day2] (init_daemon cfg_nowait day2 world0)))))
   = [[''data'', ''images'', ''2024-03-10'', ''000001.jpg'']]"
  by (simp add: backward_clock_run)

text \<open>
  Claim C2, as amended. Take the captures of one day from a fresh bucket (\<open>seq = 1\<close>, no
  file in the day's directory), in which every frame that was read was also stored; a
  capture whose read fails is skipped. With \<open>n\<close> of them successful, the directory holds
  exactly the \<open>n\<close> files named by the numbers 1 to \<open>n\<close>, the \<open>k\<close>-th successful capture in
  file \<open>k\<close>. As long as \<open>n\<close> is below one million, every name is six digits and the suffix,
  and the names compare as strings the way the frames were captured. A frame that was read
  and not stored is left out here; it is the subject of claim C6.
\<close>

theorem frames_contiguous_zero_padded:
  assumes fresh: "seq d = 1" "\<forall>name. files w (current_dir d @ [name]) = None"
    and ok: "list_all stored_if_grabbed shots"
    and n: "n = length (filter successful shots)"
  shows "\<exists>d' w'. capture_frames shots (d, w) = (None, d', w')
           \<and> seq d' = n + 1
           \<and> {name. files w' (current_dir d @ [name]) \<noteq> None} = frame_name ` {1..n}
           \<and> card (frame_name ` {1..n}) = n
           \<and> (\<forall>k\<in>{1..n}. files w' (current_dir d @ [frame_name k]) = grabbed (filter successful shots ! (k - 1)))
           \<and> (n < 10 ^ 6 \<longrightarrow>
                (\<forall>i\<in>{1..n}. \<forall>j\<in>{1..n}.
                   length (frame_name i) = 6 + length ''.jpg''
                   \<and> (frame_name i < frame_name j \<longleftrightarrow> i < j)))"
proof -
  let ?good = "filter successful shots"
  from capture_frames_stored[OF ok, of d w] n obtain d' w' where
    run: "capture_frames shots (d, w) = (None, d', w')" and
    d': "d' = d\<lparr>seq := seq d + n\<rparr>" and
    hit: "\<forall>k<n. files w' (current_dir d @ [frame_name (seq d + k)]) = grabbed (?good ! k)" and
    miss: "\<forall>p. (\<forall>k<n. p \<noteq> current_dir d @ [frame_name (seq d + k)]) \<longrightarrow> files w' p = files w p"
    by blast
  have stored: "\<forall>k\<in>{1..n}. files w' (current_dir d @ [frame_name k]) = grabbed (?good ! (k - 1))"
  proof
    fix k assume "k \<in> {1..n}"
    then have "k - 1 < n" "seq d + (k - 1) = k" using fresh(1) by auto
    with hit show "files w' (current_dir d @ [frame_name k]) = grabbed (?good ! (k - 1))" by metis
  qed
  have some: "\<forall>k<n. grabbed (?good ! k) \<noteq> None"
  proof (intro allI impI)
    fix k assume "k < n"
    with n have "k < length ?good" by simp
    then have "?good ! k \<in> set ?good" by (rule nth_mem)
    then have "successful (?good ! k)" by simp
    then show "grabbed (?good ! k) \<noteq> None" by (simp add: successful_def)
  qed
  have listing: "{name. files w' (current_dir d @ [name]) \<noteq> None} = frame_name ` {1..n}"
  proof (intro set_eqI iffI)
    fix name assume "name \<in> {name. files w' (current_dir d @ [name]) \<noteq> None}"
    then have present: "files w' (current_dir d @ [name]) \<noteq> None" by simp
    show "name \<in> frame_name ` {1..n}"
    proof (rule ccontr)
      assume out: "name \<notin> frame_name ` {1..n}"
      have "\<forall>k<n. current_dir d @ [name] \<noteq> current_dir d @ [frame_name (seq d + k)]"
      proof (intro allI impI)
        fix k assume "k < n"
        then have "seq d + k \<in> {1..n}" using fresh(1) by simp
        with out show "current_dir d @ [name] \<noteq> current_dir d @ [frame_name (seq d + k)]" by blast
      qed
      with miss have "files w' (current_dir d @ [name]) = files w (current_dir d @ [name])" by blast
      with fresh(2) present show False by simp
    qed
  next
    fix name assume "name \<in> frame_name ` {1..n}"
    then obtain k where k: "k \<in> {1..n}" "name = frame_name k" by blast
    then have "k - 1 < n" by auto
    with some stored k show "name \<in> {name. files w' (current_dir d @ [name]) \<noteq> None}" by simp
  qed
  have count: "card (frame_name ` {1..n}) = n"
    by (simp add: card_image inj_on_def)
  have names: "n < 10 ^ 6 \<longrightarrow>
                (\<forall>i\<in>{1..n}. \<forall>j\<in>{1..n}.
                   length (frame_name i) = 6 + length ''.jpg''
                   \<and> (frame_name i < frame_name j \<longleftrightarrow> i < j))"
  proof (intro impI ballI)
    fix i j assume "n < 10 ^ 6" "i \<in> {1..n}" "j \<in> {1..n}"
    then have "i < 10 ^ 6" "j < 10 ^ 6" by auto
    then show "length (frame_name i) = 6 + length ''.jpg'' \<and> (frame_name i < frame_name j \<longleftrightarrow> i < j)"
      by (simp add: length_frame_name frame_name_less)
  qed
  from run d' fresh(1) listing count stored names show ?thesis by simp
qed

theorem frames_contiguous_zero_padded_witness:
  "seq daemon0 = 1
   \<and> (\<forall>name. files world0 (current_dir daemon0 @ [name]) = None)
   \<and> list_all stored_if_grabbed [good_shot ''a'', failed_read, good_shot ''b'', good_shot ''c'']
   \<and> length (filter successful [good_shot ''a'', failed_read, good_shot ''b'', good_shot ''c'']) = 3
   \<and> fst (capture_frames [good_shot ''a'', failed_read, good_shot ''b'', good_shot ''c''] (daemon0, world0)) = None
   \<and> seq (fst (snd (capture_frames [good_shot ''a'', failed_read, good_shot ''b'', good_shot ''c'']
                       (daemon0, world0)))) = 4
   \<and> {name. files (snd (snd (capture_frames [good_shot ''a'', failed_read, good_shot ''b'', good_shot ''c'']
                 (daemon0, world0)))) ([''data'', ''images'', ''2024-03-09''] @ [name]) \<noteq> None}
       = {''000001.jpg'', ''000002.jpg'', ''000003.jpg''}
   \<and> ''000001.jpg'' < ''000002.jpg'' \<and> ''000002.jpg'' < ''000003.jpg''"
proof -
  let ?shots = "[good_shot ''a'', failed_read, good_shot ''b'', good_shot ''c'']"
  have h1: "seq daemon0 = 1" by (rule daemon0_eval)
  have h2: "\<forall>name. files world0 (current_dir daemon0 @ [name]) = None" by (simp add: world0_def)
  have h3: "list_all stored_if_grabbed ?shots"
    by (simp add: stored_if_grabbed_def good_shot_def failed_read_def)
  have h4: "(3::nat) = length (filter successful ?shots)"
    by simp
  have h4': "length (filter successful ?shots) = 3" using h4 by simp
  have range: "{1..3::nat} = {1, 2, 3}" by auto
  from frames_contiguous_zero_padded[OF h1 h2 h3 h4] obtain d' w' where
    run: "capture_frames ?shots (daemon0, world0) = (None, d', w')" and
    sq: "seq d' = 3 + 1" and
    listing: "{name. files w' (current_dir daemon0 @ [name]) \<noteq> None} = frame_name ` {1..3}"
    by (elim exE conjE) (rule that)
  have "frame_name ` {1..3} = {''000001.jpg'', ''000002.jpg'', ''000003.jpg''}"
    unfolding range by (simp add: frame_name_Suc_0 frame_name_2 frame_name_3)
  with listing have names: "{name. files w' ([''data'', ''images'', ''2024-03-09''] @ [name]) \<noteq> None}
       = {''000001.jpg'', ''000002.jpg'', ''000003.jpg''}"
    by (simp only: daemon0_eval)
  have order: "''000001.jpg'' < ''000002.jpg''" "''000002.jpg'' < ''000003.jpg''" by simp_all
  have four: "seq d' = 4" using sq by simp
  show ?thesis
    unfolding run fst_conv snd_conv using h1 h2 h3 h4' four names order by (intro conjI refl)
qed

text \<open>
  The claim as stated, for every \<open>n\<close>, fails at one million frames in one day (the capture
  interval may be 0): frame 1000000 is stored under a seven-digit name, which sorts before
  the name of frame 999999.
\<close>

theorem seventh_digit_counterexample:
  "seq daemon0 = 1
   \<and> files (snd (snd (capture_frames (replicate 1000000 (good_shot ''f'')) (daemon0, world0))))
        (current_dir daemon0 @ [''999999.jpg'']) = Some ''f''
   \<and> files (snd (snd (capture_frames (replicate 1000000 (good_shot ''f'')) (daemon0, world0))))
        (current_dir daemon0 @ [''1000000.jpg'']) = Some ''f''
   \<and> length ''1000000.jpg'' = 7 + length ''.jpg''
   \<and> ''1000000.jpg'' < ''999999.jpg''"
proof -
  let ?shots = "replicate 1000000 (good_shot ''f'')"
  have ok: "list_all successful ?shots" by (simp add: list_all_iff)
  from capture_frames_successful[OF ok, of daemon0 world0] obtain d' w' where
    run: "capture_frames ?shots (daemon0, world0) = (None, d', w')" and
    hit: "\<forall>k<length ?shots. files w' (current_dir daemon0 @ [frame_name (seq daemon0 + k)]) = grabbed (?shots ! k)"
    by (elim exE conjE) (rule that)
  from hit have "files w' (current_dir daemon0 @ [frame_name (seq daemon0 + 999998)]) = grabbed (?shots ! 999998)"
    by simp
  then have a: "files w' (current_dir daemon0 @ [''999999.jpg'']) = Some ''f''"
    by (simp add: daemon0_eval(1) frame_name_999999 good_shot_def)
  from hit have "files w' (current_dir daemon0 @ [frame_name (seq daemon0 + 999999)]) = grabbed (?shots ! 999999)"
    by simp
  then have b: "files w' (current_dir daemon0 @ [''1000000.jpg'']) = Some ''f''"
    by (simp add: daemon0_eval(1) frame_name_1000000 good_shot_def)
  have len: "length ''1000000.jpg'' = 7 + length ''.jpg''" and lt: "''1000000.jpg'' < ''999999.jpg''"
    by simp_all
  show ?thesis
    unfolding run snd_conv using daemon0_eval(1) a b len lt by (intro conjI)
qed

text \<open>
  Claim C3. When the master exists and the merge of a day's video ends in an exception, the
  master holds the bytes it held before, whatever the subprocesses did. This is so for the
  call the finalizer makes (master \<^verbatim>\<open>videos/master.mp4\<close>, daily video \<^verbatim>\<open>videos/<date>.mp4\<close>): the
  two remuxes write \<^verbatim>\<open>master.ts\<close> and \<^verbatim>\<open><date>.ts\<close>, the concatenation writes
  \<^verbatim>\<open>master.new.mp4\<close>, and \<^verbatim>\<open>os.replace\<close> is reached only when \<^verbatim>\<open>concat_videos_fast\<close> has returned
  without an exception. In particular a failure of the concatenation step is the failure of
  the merge, with the master untouched.
\<close>

theorem failed_merge_leaves_master_unchanged:
  assumes there: "files w (VIDEOS_DIR cfg @ [''master.mp4'']) = Some m"
  shows "(merge_daily_into_master ev (VIDEOS_DIR cfg @ [''master.mp4''])
             (VIDEOS_DIR cfg @ [isoformat dy @ ''.mp4'']) w = (Some e, w')
          \<longrightarrow> files w' (VIDEOS_DIR cfg @ [''master.mp4'']) = Some m)
       \<and> (concat_videos_fast ev [VIDEOS_DIR cfg @ [''master.mp4''], VIDEOS_DIR cfg @ [isoformat dy @ ''.mp4'']]
             (VIDEOS_DIR cfg @ [''master.new.mp4'']) w = (Some e, w1)
          \<longrightarrow> files w1 (VIDEOS_DIR cfg @ [''master.mp4'']) = Some m
              \<and> merge_daily_into_master ev (VIDEOS_DIR cfg @ [''master.mp4''])
                   (VIDEOS_DIR cfg @ [isoformat dy @ ''.mp4'']) w = (Some e, w1))"
proof (intro conjI impI)
  let ?master = "VIDEOS_DIR cfg @ [''master.mp4'']" and ?day = "VIDEOS_DIR cfg @ [isoformat dy @ ''.mp4'']"
  have ts: "with_suffix ?master ''.ts'' \<noteq> Some ?master" "with_suffix ?day ''.ts'' \<noteq> Some ?master"
    and tmp: "with_suffix ?master ''.new.mp4'' = Some (VIDEOS_DIR cfg @ [''master.new.mp4''])"
    by (simp_all add: with_suffix_master with_suffix_mp4)
  {
    assume "merge_daily_into_master ev ?master ?day w = (Some e, w')"
    from merge_error_keeps_master[OF there this ts] tmp
    show "files w' ?master = Some m" by simp
  }
  {
    assume cat: "concat_videos_fast ev [?master, ?day] (VIDEOS_DIR cfg @ [''master.new.mp4'']) w = (Some e, w1)"
    from concat_videos_fast_other[OF cat] ts there
    show "files w1 ?master = Some m" by simp
    from cat there tmp show "merge_daily_into_master ev ?master ?day w = (Some e, w1)"
      by (simp add: merge_daily_into_master_def)
  }
qed

theorem failed_merge_leaves_master_unchanged_witness:
  "files world_with_master (VIDEOS_DIR cfg0 @ [''master.mp4'']) = Some ''M''
   \<and> fst (merge_daily_into_master concat_fails_env (VIDEOS_DIR cfg0 @ [''master.mp4''])
             (VIDEOS_DIR cfg0 @ [isoformat day1 @ ''.mp4'']) world_with_master) = Some CalledProcessError
   \<and> files (snd (merge_daily_into_master concat_fails_env (VIDEOS_DIR cfg0 @ [''master.mp4''])
             (VIDEOS_DIR cfg0 @ [isoformat day1 @ ''.mp4'']) world_with_master))
        (VIDEOS_DIR cfg0 @ [''master.mp4'']) = Some ''M''"
proof -
  have there: "files world_with_master (VIDEOS_DIR cfg0 @ [''master.mp4'']) = Some ''M''"
    by (simp add: world_with_master_def)
  note inst = failed_merge_leaves_master_unchanged[OF there, THEN conjunct1, rule_format, OF failed_merge_example]
  have a: "fst (merge_daily_into_master concat_fails_env (VIDEOS_DIR cfg0 @ [''master.mp4''])
             (VIDEOS_DIR cfg0 @ [isoformat day1 @ ''.mp4'']) world_with_master) = Some CalledProcessError"
    by (simp only: failed_merge_example fst_conv)
  have b: "files (snd (merge_daily_into_master concat_fails_env (VIDEOS_DIR cfg0 @ [''master.mp4''])
             (VIDEOS_DIR cfg0 @ [isoformat day1 @ ''.mp4'']) world_with_master))
        (VIDEOS_DIR cfg0 @ [''master.mp4'']) = Some ''M''"
    unfolding failed_merge_example snd_conv by (rule inst)
  from there a b show ?thesis by (intro conjI)
qed

text \<open>
  Claim C4, as amended. The module holds no lock: \<^verbatim>\<open>merge_daily_into_master\<close> tests for the
  master, remuxes, concatenates, cleans up and replaces with nothing between these steps
  that would keep another job out, and both jobs use the same \<^verbatim>\<open>master.ts\<close> and
  \<^verbatim>\<open>master.new.mp4\<close>. What holds is the sequential case: when the merge of the earlier day has
  returned before the merge of the later day begins, and ffmpeg does what its command lines
  ask, both merges return without an exception, the run is the one merge followed by the
  other, and the master ends as the old master, then the earlier day, then the later day.
\<close>

theorem merges_in_turn_concatenate:
  assumes master: "files w (VIDEOS_DIR cfg @ [''master.mp4'']) = Some m"
    and first: "files w (VIDEOS_DIR cfg @ [isoformat da @ ''.mp4'']) = Some a"
    and second: "files w (VIDEOS_DIR cfg @ [isoformat db @ ''.mp4'']) = Some b"
    and run: "r = interleave ideal_env (replicate 6 True @ replicate 6 False)
                    (start_merge (VIDEOS_DIR cfg @ [''master.mp4'']) (VIDEOS_DIR cfg @ [isoformat da @ ''.mp4'']),
                     start_merge (VIDEOS_DIR cfg @ [''master.mp4'']) (VIDEOS_DIR cfg @ [isoformat db @ ''.mp4'']),
                     w)"
  shows "m_at (fst r) = AtReturn \<and> m_raised (fst r) = None
       \<and> m_at (fst (snd r)) = AtReturn \<and> m_raised (fst (snd r)) = None
       \<and> files (snd (snd r)) (VIDEOS_DIR cfg @ [''master.mp4'']) = Some (m @ a @ b)
       \<and> snd (snd r) =
           snd (merge_daily_into_master ideal_env (VIDEOS_DIR cfg @ [''master.mp4''])
                  (VIDEOS_DIR cfg @ [isoformat db @ ''.mp4''])
                  (snd (merge_daily_into_master ideal_env (VIDEOS_DIR cfg @ [''master.mp4''])
                          (VIDEOS_DIR cfg @ [isoformat da @ ''.mp4'']) w)))"
proof -
  let ?master = "VIDEOS_DIR cfg @ [''master.mp4'']"
  let ?a = "VIDEOS_DIR cfg @ [isoformat da @ ''.mp4'']" and ?b = "VIDEOS_DIR cfg @ [isoformat db @ ''.mp4'']"
  let ?x1 = "merge_steps ideal_env 6 (start_merge ?master ?a, w)"
  let ?w1 = "snd (merge_daily_into_master ideal_env ?master ?a w)"
  let ?x2 = "merge_steps ideal_env 6 (start_merge ?master ?b, ?w1)"
  let ?w2 = "snd (merge_daily_into_master ideal_env ?master ?b ?w1)"
  have a1: "m_at (fst ?x1) = AtReturn"
    and a2: "(m_raised (fst ?x1), snd ?x1) = merge_daily_into_master ideal_env ?master ?a w"
    using merge_steps_alone[of ideal_env ?master ?a w] by simp_all
  from a2 have w1: "snd ?x1 = ?w1" and r1: "m_raised (fst ?x1) = fst (merge_daily_into_master ideal_env ?master ?a w)"
    by (metis snd_conv, metis fst_conv)
  have ok1: "fst (merge_daily_into_master ideal_env ?master ?a w) = None"
    and m1: "files ?w1 ?master = Some (m @ a)"
    and b1: "files ?w1 ?b = Some b"
    using ideal_merge[OF master first] second by simp_all
  have b1': "m_at (fst ?x2) = AtReturn"
    and b2: "(m_raised (fst ?x2), snd ?x2) = merge_daily_into_master ideal_env ?master ?b ?w1"
    using merge_steps_alone[of ideal_env ?master ?b ?w1] by simp_all
  from b2 have w2: "snd ?x2 = ?w2" and r2: "m_raised (fst ?x2) = fst (merge_daily_into_master ideal_env ?master ?b ?w1)"
    by (metis snd_conv, metis fst_conv)
  have ok2: "fst (merge_daily_into_master ideal_env ?master ?b ?w1) = None"
    and m2: "files ?w2 ?master = Some ((m @ a) @ b)"
    using ideal_merge(1,2)[OF m1 b1] by simp_all
  have r: "r = (fst ?x1, fst ?x2, ?w2)"
    unfolding run interleave_append interleave_first_only interleave_second_only w1
    by (simp add: w2)
  show ?thesis
    unfolding r using a1 r1 ok1 b1' r2 ok2 m2 by simp
qed

text \<open>
  The claim as stated, for any two concurrent jobs, fails at this schedule: the job of the
  9th runs up to its \<^verbatim>\<open>finally\<close> block; the job of the 10th finds the master and remuxes it; the
  job of the 9th replaces the master; the job of the 10th remuxes its day, concatenates it
  to the old master's stream, cleans up and replaces the master. Neither job raises, and the
  master ends as the old master followed by the 10th alone: the 9th is lost.
\<close>

theorem overlapping_merges_lose_a_day_counterexample:
  "m_at (fst (interleave ideal_env
       [True, True, True, True, True, False, False, True, False, False, False, False]
       (start_merge (VIDEOS_DIR cfg0 @ [''master.mp4'']) (VIDEOS_DIR cfg0 @ [''2024-03-09.mp4'']),
        start_merge (VIDEOS_DIR cfg0 @ [''master.mp4'']) (VIDEOS_DIR cfg0 @ [''2024-03-10.mp4'']),
        world_two_days))) = AtReturn
   \<and> m_raised (fst (interleave ideal_env
       [True, True, True, True, True, False, False, True, False, False, False, False]
       (start_merge (VIDEOS_DIR cfg0 @ [''master.mp4'']) (VIDEOS_DIR cfg0 @ [''2024-03-09.mp4'']),
        start_merge (VIDEOS_DIR cfg0 @ [''master.mp4'']) (VIDEOS_DIR cfg0 @ [''2024-03-10.mp4'']),
        world_two_days))) = None
   \<and> m_at (fst (snd (interleave ideal_env
       [True, True, True, True, True, False, False, True, False, False, False, False]
       (start_merge (VIDEOS_DIR cfg0 @ [''master.mp4'']) (VIDEOS_DIR cfg0 @ [''2024-03-09.mp4'']),
        start_merge (VIDEOS_DIR cfg0 @ [''master.mp4'']) (VIDEOS_DIR cfg0 @ [''2024-03-10.mp4'']),
        world_two_days)))) = AtReturn
   \<and> m_raised (fst (snd (interleave ideal_env
       [True, True, True, True, True, False, False, True, False, False, False, False]
       (start_merge (VIDEOS_DIR cfg0 @ [''master.mp4'']) (VIDEOS_DIR cfg0 @ [''2024-03-09.mp4'']),
        start_merge (VIDEOS_DIR cfg0 @ [''master.mp4'']) (VIDEOS_DIR cfg0 @ [''2024-03-10.mp4'']),
        world_two_days)))) = None
   \<and> files (snd (snd (interleave ideal_env
       [True, True, True, True, True, False, False, True, False, False, False, False]
       (start_merge (VIDEOS_DIR cfg0 @ [''master.mp4'']) (VIDEOS_DIR cfg0 @ [''2024-03-09.mp4'']),
        start_merge (VIDEOS_DIR cfg0 @ [''master.mp4'']) (VIDEOS_DIR cfg0 @ [''2024-03-10.mp4'']),
        world_two_days)))) (VIDEOS_DIR cfg0 @ [''master.mp4'']) = Some ''MB''
   \<and> files world_two_days (VIDEOS_DIR cfg0 @ [''master.mp4'']) = Some ''M''
   \<and> files world_two_days (VIDEOS_DIR cfg0 @ [''2024-03-09.mp4'']) = Some ''A''
   \<and> files world_two_days (VIDEOS_DIR cfg0 @ [''2024-03-10.mp4'']) = Some ''B''"
  by (simp add: merge_eval)

theorem merges_in_turn_concatenate_witness:
  "files world_two_days (VIDEOS_DIR cfg0 @ [''master.mp4'']) = Some ''M''
   \<and> files world_two_days (VIDEOS_DIR cfg0 @ [isoformat day1 @ ''.mp4'']) = Some ''A''
   \<and> files world_two_days (VIDEOS_DIR cfg0 @ [isoformat day2 @ ''.mp4'']) = Some ''B''
   \<and> m_raised (fst (interleave ideal_env (replicate 6 True @ replicate 6 False)
         (start_merge (VIDEOS_DIR cfg0 @ [''master.mp4'']) (VIDEOS_DIR cfg0 @ [isoformat day1 @ ''.mp4'']),
          start_merge (VIDEOS_DIR cfg0 @ [''master.mp4'']) (VIDEOS_DIR cfg0 @ [isoformat day2 @ ''.mp4'']),
          world_two_days))) = None
   \<and> files (snd (snd (interleave ideal_env (replicate 6 True @ replicate 6 False)
         (start_merge (VIDEOS_DIR cfg0 @ [''master.mp4'']) (VIDEOS_DIR cfg0 @ [isoformat day1 @ ''.mp4'']),
          start_merge (VIDEOS_DIR cfg0 @ [''master.mp4'']) (VIDEOS_DIR cfg0 @ [isoformat day2 @ ''.mp4'']),
          world_two_days)))) (VIDEOS_DIR cfg0 @ [''master.mp4'']) = Some ''MAB''"
proof -
  have h1: "files world_two_days (VIDEOS_DIR cfg0 @ [''master.mp4'']) = Some ''M''"
    and h2: "files world_two_days (VIDEOS_DIR cfg0 @ [isoformat day1 @ ''.mp4'']) = Some ''A''"
    and h3: "files world_two_days (VIDEOS_DIR cfg0 @ [isoformat day2 @ ''.mp4'']) = Some ''B''"
    by (simp_all add: world_two_days_def isoformat_day1 isoformat_day2)
  note inst = merges_in_turn_concatenate[OF h1 h2 h3 refl]
  have a: "m_raised (fst (interleave ideal_env (replicate 6 True @ replicate 6 False)
         (start_merge (VIDEOS_DIR cfg0 @ [''master.mp4'']) (VIDEOS_DIR cfg0 @ [isoformat day1 @ ''.mp4'']),
          start_merge (VIDEOS_DIR cfg0 @ [''master.mp4'']) (VIDEOS_DIR cfg0 @ [isoformat day2 @ ''.mp4'']),
          world_two_days))) = None"
    by (rule inst[THEN conjunct2, THEN conjunct1])
  have "files (snd (snd (interleave ideal_env (replicate 6 True @ replicate 6 False)
         (start_merge (VIDEOS_DIR cfg0 @ [''master.mp4'']) (VIDEOS_DIR cfg0 @ [isoformat day1 @ ''.mp4'']),
          start_merge (VIDEOS_DIR cfg0 @ [''master.mp4'']) (VIDEOS_DIR cfg0 @ [isoformat day2 @ ''.mp4'']),
          world_two_days)))) (VIDEOS_DIR cfg0 @ [''master.mp4'']) = Some (''M'' @ ''A'' @ ''B'')"
    by (rule inst[THEN conjunct2, THEN conjunct2, THEN conjunct2, THEN conjunct2, THEN conjunct1])
  then have b: "files (snd (snd (interleave ideal_env (replicate 6 True @ replicate 6 False)
         (start_merge (VIDEOS_DIR cfg0 @ [''master.mp4'']) (VIDEOS_DIR cfg0 @ [isoformat day1 @ ''.mp4'']),
          start_merge (VIDEOS_DIR cfg0 @ [''master.mp4'']) (VIDEOS_DIR cfg0 @ [isoformat day2 @ ''.mp4'']),
          world_two_days)))) (VIDEOS_DIR cfg0 @ [''master.mp4'']) = Some ''MAB''"
    by (simp del: replicate.simps)
  from h1 h2 h3 a b show ?thesis by (intro conjI)
qed

text \<open>
  Claim C5, as amended. The four steps of the job stand under one \<^verbatim>\<open>try\<close>. After the video
  of the day is built: if the delivery of the daily video raises, the job logs the exception
  and ends there, with no further command run and every file, the master among them, as
  the encoder left it; if the delivery returns and the merge raises, the job logs the
  exception and ends with the deliveries that were recorded before the merge, and no more.
\<close>

theorem failed_delivery_ends_job_before_merge:
  assumes made: "make_video_from_images ev dirpath (VIDEOS_DIR cfg @ [isoformat dy @ ''.mp4'']) (DAILY_FPS cfg) w = (None, w1)"
  shows "(send_file_telegram cfg ev (VIDEOS_DIR cfg @ [isoformat dy @ ''.mp4'']) (''Timelapse '' @ isoformat dy) w1
            = (Some e, w2) \<longrightarrow>
          finalize_job cfg ev dy dirpath w = emit [LogException e] w2
          \<and> files (finalize_job cfg ev dy dirpath w) = files w1
          \<and> filter is_ran (events (finalize_job cfg ev dy dirpath w)) = filter is_ran (events w1))
       \<and> (send_file_telegram cfg ev (VIDEOS_DIR cfg @ [isoformat dy @ ''.mp4'']) (''Timelapse '' @ isoformat dy) w1
            = (None, w2) \<longrightarrow>
          merge_daily_into_master ev (VIDEOS_DIR cfg @ [''master.mp4''])
            (VIDEOS_DIR cfg @ [isoformat dy @ ''.mp4'']) w2 = (Some e, w3) \<longrightarrow>
          finalize_job cfg ev dy dirpath w = emit [LogException e] w3
          \<and> filter is_send (events (finalize_job cfg ev dy dirpath w)) = filter is_send (events w2))"
proof (intro conjI impI)
  assume sent: "send_file_telegram cfg ev (VIDEOS_DIR cfg @ [isoformat dy @ ''.mp4'']) (''Timelapse '' @ isoformat dy) w1
            = (Some e, w2)"
  with made show job: "finalize_job cfg ev dy dirpath w = emit [LogException e] w2"
    by (simp add: finalize_job_def Let_def)
  from sent show "files (finalize_job cfg ev dy dirpath w) = files w1"
    by (simp add: job send_file_telegram_files)
  from sent show "filter is_ran (events (finalize_job cfg ev dy dirpath w)) = filter is_ran (events w1)"
    by (simp add: job send_file_telegram_no_ran)
next
  assume sent: "send_file_telegram cfg ev (VIDEOS_DIR cfg @ [isoformat dy @ ''.mp4'']) (''Timelapse '' @ isoformat dy) w1
            = (None, w2)"
    and merge: "merge_daily_into_master ev (VIDEOS_DIR cfg @ [''master.mp4''])
            (VIDEOS_DIR cfg @ [isoformat dy @ ''.mp4'']) w2 = (Some e, w3)"
  with made show job: "finalize_job cfg ev dy dirpath w = emit [LogException e] w3"
    by (simp add: finalize_job_def Let_def)
  from merge show "filter is_send (events (finalize_job cfg ev dy dirpath w)) = filter is_send (events w2)"
    by (simp add: job merge_no_send)
qed

text \<open>
  The claim as stated fails at a job whose transport call for the daily video raises: the
  video is built and its delivery attempted, the exception is logged, and neither a copy nor
  an ffmpeg run of the merge follows; no master exists afterwards.
\<close>

theorem failed_delivery_skips_merge_counterexample:
  "files (finalize_job cfg0 send_fails_env day1 (day_dir cfg0 day1) world0)
        (VIDEOS_DIR cfg0 @ [''2024-03-09.mp4'']) = Some ''/data/images/2024-03-09''
   \<and> filter is_send (events (finalize_job cfg0 send_fails_env day1 (day_dir cfg0 day1) world0))
       = [SendVideo (VIDEOS_DIR cfg0 @ [''2024-03-09.mp4'']) ''Timelapse 2024-03-09'']
   \<and> last (events (finalize_job cfg0 send_fails_env day1 (day_dir cfg0 day1) world0)) = LogException TelegramError
   \<and> filter is_ran (events (finalize_job cfg0 send_fails_env day1 (day_dir cfg0 day1) world0))
       = [Ran (FfmpegImages (day_dir cfg0 day1) 30 (VIDEOS_DIR cfg0 @ [''2024-03-09.mp4'']))]
   \<and> files (finalize_job cfg0 send_fails_env day1 (day_dir cfg0 day1) world0)
        (VIDEOS_DIR cfg0 @ [''master.mp4'']) = None"
  by (simp add: failed_delivery_example)

theorem failed_delivery_ends_job_before_merge_witness:
  "fst (make_video_from_images send_fails_env (day_dir cfg0 day1) (VIDEOS_DIR cfg0 @ [isoformat day1 @ ''.mp4''])
       (DAILY_FPS cfg0) world0) = None
   \<and> fst (send_file_telegram cfg0 send_fails_env (VIDEOS_DIR cfg0 @ [isoformat day1 @ ''.mp4''])
       (''Timelapse '' @ isoformat day1)
       (snd (make_video_from_images send_fails_env (day_dir cfg0 day1) (VIDEOS_DIR cfg0 @ [isoformat day1 @ ''.mp4''])
       (DAILY_FPS cfg0) world0))) = Some TelegramError
   \<and> files (finalize_job cfg0 send_fails_env day1 (day_dir cfg0 day1) world0)
      = [VIDEOS_DIR cfg0 @ [''2024-03-09.mp4''] \<mapsto> ''/data/images/2024-03-09'']"
proof -
  note inst = failed_delivery_ends_job_before_merge[OF make_video_example, THEN conjunct1, rule_format,
      OF send_fails_example, THEN conjunct2, THEN conjunct1]
  have a: "fst (make_video_from_images send_fails_env (day_dir cfg0 day1) (VIDEOS_DIR cfg0 @ [isoformat day1 @ ''.mp4''])
       (DAILY_FPS cfg0) world0) = None"
    by (simp only: make_video_example fst_conv)
  have b: "fst (send_file_telegram cfg0 send_fails_env (VIDEOS_DIR cfg0 @ [isoformat day1 @ ''.mp4''])
       (''Timelapse '' @ isoformat day1)
       (snd (make_video_from_images send_fails_env (day_dir cfg0 day1) (VIDEOS_DIR cfg0 @ [isoformat day1 @ ''.mp4''])
       (DAILY_FPS cfg0) world0))) = Some TelegramError"
    by (simp only: make_video_example snd_conv send_fails_example fst_conv)
  have c: "files (finalize_job cfg0 send_fails_env day1 (day_dir cfg0 day1) world0)
      = [VIDEOS_DIR cfg0 @ [''2024-03-09.mp4''] \<mapsto> ''/data/images/2024-03-09'']"
    using inst by simp
  from a b c show ?thesis by (intro conjI)
qed

text \<open>
  Claim C6 says that a frame that could not be written leaves the sequence number as it was.
  In \<^verbatim>\<open>capture_frame\<close> a frame that \<^verbatim>\<open>cv2.imwrite\<close> did not store (it returned false) is
  logged as captured and \<open>seq\<close> moves on, leaving a gap in the numbering; the failed read
  just above it returns before the increment.
\<close>

theorem unstored_frame_advances_seq:
  "capture_frame \<lparr>grabbed = Some frame, stored = NotStored\<rparr> (d, w) =
     Inr (d\<lparr>seq := seq d + 1\<rparr>,
          emit [Imwrite (current_dir d @ [frame_name (seq d)]) False,
                LogInfo (''Captured '' @ path_str (current_dir d @ [frame_name (seq d)]))] w)"
  by (simp add: capture_frame_def Let_def)

text \<open>
  Claim C7 says that a camera that cannot be read at startup ends the process whatever the
  configuration. \<^verbatim>\<open>open_cam\<close> raises in the capture thread, which ends; the main thread is in
  \<^verbatim>\<open>app.run_polling()\<close> whenever a bot token is configured, so the process stays up, serving
  \<^verbatim>\<open>/status\<close> with \<open>running\<close> still set and nothing captured. Only without a token does the main
  thread join the capture thread and the process end.
\<close>

theorem camera_failure_leaves_process_polling:
  "main cfg0 True today False shots clock w =
     (Polling, Some (Some CameraNotAccessible,
                     (fst (init_daemon cfg0 today w))\<lparr>running := True, cap := True\<rparr>,
                     snd (init_daemon cfg0 today w)))
   \<and> main cfg_unconfigured True today False shots clock w =
     (Exited, Some (Some CameraNotAccessible,
                     (fst (init_daemon cfg_unconfigured today w))\<lparr>running := True, cap := True\<rparr>,
                     snd (init_daemon cfg_unconfigured today w)))"
  by (simp add: main_def run_def open_cam_def init_daemon_def cfg0_def cfg_unconfigured_def)

text \<open>
  Claim C8. Without a bot token or chat id the delivery returns at once with a warning in the
  log; so does the delivery of an existing file whose size in MB exceeds the ceiling. For an
  existing file the transport is called exactly when the notifier is configured and the size
  is within the ceiling, an exception comes out exactly when that call fails, and the files
  are left as they are. The two files the job asks to deliver exist when it asks: each was
  written by the step that just succeeded.
\<close>

theorem delivery_skips_without_transport_call:
  "(TELEGRAM_BOT_TOKEN cfg = [] \<or> TELEGRAM_CHAT_ID cfg = [] \<longrightarrow>
      send_file_telegram cfg ev p caption w = (None, emit [LogWarning ''Telegram not configured.''] w))
   \<and> (TELEGRAM_BOT_TOKEN cfg \<noteq> [] \<longrightarrow> TELEGRAM_CHAT_ID cfg \<noteq> [] \<longrightarrow> files w p = Some content \<longrightarrow>
        real (length content) / 1024 / 1024 > real_of_int (MAX_TELEGRAM_MB cfg) \<longrightarrow>
      send_file_telegram cfg ev p caption w = (None, emit [LogWarning ''Skipping send, file too large''] w))
   \<and> (files w p = Some content \<longrightarrow> send_file_telegram cfg ev p caption w = (r, w') \<longrightarrow>
        (r \<noteq> None \<longleftrightarrow>
           TELEGRAM_BOT_TOKEN cfg \<noteq> [] \<and> TELEGRAM_CHAT_ID cfg \<noteq> []
           \<and> real (length content) / 1024 / 1024 \<le> real_of_int (MAX_TELEGRAM_MB cfg)
           \<and> \<not> send_video ev p caption)
        \<and> (r = None \<or> r = Some TelegramError)
        \<and> files w' = files w
        \<and> filter is_send (drop (length (events w)) (events w')) =
            (if TELEGRAM_BOT_TOKEN cfg \<noteq> [] \<and> TELEGRAM_CHAT_ID cfg \<noteq> []
                \<and> real (length content) / 1024 / 1024 \<le> real_of_int (MAX_TELEGRAM_MB cfg)
             then [SendVideo p caption] else []))
   \<and> (make_video_from_images ev frames_dir p fps w = (None, w1) \<longrightarrow> files w1 p \<noteq> None)
   \<and> (merge_daily_into_master ev p day_video_path w = (None, w1) \<longrightarrow> files w1 p \<noteq> None)"
proof (intro conjI impI)
  assume "TELEGRAM_BOT_TOKEN cfg = [] \<or> TELEGRAM_CHAT_ID cfg = []"
  then show "send_file_telegram cfg ev p caption w = (None, emit [LogWarning ''Telegram not configured.''] w)"
    by (auto simp: send_file_telegram_def)
next
  assume "TELEGRAM_BOT_TOKEN cfg \<noteq> []" "TELEGRAM_CHAT_ID cfg \<noteq> []" "files w p = Some content"
    "real (length content) / 1024 / 1024 > real_of_int (MAX_TELEGRAM_MB cfg)"
  then show "send_file_telegram cfg ev p caption w = (None, emit [LogWarning ''Skipping send, file too large''] w)"
    by (simp add: send_file_telegram_def)
next
  assume f: "files w p = Some content" and s: "send_file_telegram cfg ev p caption w = (r, w')"
  from f s show "r \<noteq> None \<longleftrightarrow>
           TELEGRAM_BOT_TOKEN cfg \<noteq> [] \<and> TELEGRAM_CHAT_ID cfg \<noteq> []
           \<and> real (length content) / 1024 / 1024 \<le> real_of_int (MAX_TELEGRAM_MB cfg)
           \<and> \<not> send_video ev p caption"
    by (auto simp: send_file_telegram_def split: if_splits)
  from f s show "r = None \<or> r = Some TelegramError"
    by (auto simp: send_file_telegram_def split: if_splits)
  from s show "files w' = files w" by (rule send_file_telegram_files)
  from f s show "filter is_send (drop (length (events w)) (events w')) =
            (if TELEGRAM_BOT_TOKEN cfg \<noteq> [] \<and> TELEGRAM_CHAT_ID cfg \<noteq> []
                \<and> real (length content) / 1024 / 1024 \<le> real_of_int (MAX_TELEGRAM_MB cfg)
             then [SendVideo p caption] else [])"
    by (auto simp: send_file_telegram_def split: if_splits)
next
  assume "make_video_from_images ev frames_dir p fps w = (None, w1)"
  then show "files w1 p \<noteq> None" by (rule make_video_ok_exists)
next
  assume "merge_daily_into_master ev p day_video_path w = (None, w1)"
  then show "files w1 p \<noteq> None" by (rule merge_ok_master_exists)
qed

theorem delivery_skips_without_transport_call_witness:
  "TELEGRAM_BOT_TOKEN cfg_unconfigured = []
   \<and> send_file_telegram cfg_unconfigured send_fails_env (VIDEOS_DIR cfg0 @ [''master.mp4'']) ''c'' world_with_master
       = (None, emit [LogWarning ''Telegram not configured.''] world_with_master)
   \<and> TELEGRAM_BOT_TOKEN cfg_tiny \<noteq> [] \<and> TELEGRAM_CHAT_ID cfg_tiny \<noteq> []
   \<and> files world_with_master (VIDEOS_DIR cfg0 @ [''master.mp4'']) = Some ''M''
   \<and> real (length ''M'') / 1024 / 1024 > real_of_int (MAX_TELEGRAM_MB cfg_tiny)
   \<and> send_file_telegram cfg_tiny send_fails_env (VIDEOS_DIR cfg0 @ [''master.mp4'']) ''c'' world_with_master
       = (None, emit [LogWarning ''Skipping send, file too large''] world_with_master)"
proof -
  let ?p = "VIDEOS_DIR cfg0 @ [''master.mp4'']"
  have h1: "TELEGRAM_BOT_TOKEN cfg_unconfigured = []" by (simp add: cfg_unconfigured_def)
  have h2: "TELEGRAM_BOT_TOKEN cfg_tiny \<noteq> []" "TELEGRAM_CHAT_ID cfg_tiny \<noteq> []"
    by (simp_all add: cfg_tiny_def cfg0_def)
  have h3: "files world_with_master ?p = Some ''M''" by (simp add: world_with_master_def)
  have h4: "real (length ''M'') / 1024 / 1024 > real_of_int (MAX_TELEGRAM_MB cfg_tiny)"
    by (simp add: cfg_tiny_def)
  have a: "send_file_telegram cfg_unconfigured send_fails_env ?p ''c'' world_with_master
       = (None, emit [LogWarning ''Telegram not configured.''] world_with_master)"
    using delivery_skips_without_transport_call[of cfg_unconfigured send_fails_env ?p "''c''" world_with_master] h1
    by blast
  have b: "send_file_telegram cfg_tiny send_fails_env ?p ''c'' world_with_master
       = (None, emit [LogWarning ''Skipping send, file too large''] world_with_master)"
    using delivery_skips_without_transport_call[of cfg_tiny send_fails_env ?p "''c''" world_with_master "''M''"] h2 h3 h4
    by blast
  from h1 a h2 h3 h4 b show ?thesis by (intro conjI)
qed

text \<open>
  Claim C9. Time is counted in calls of \<^verbatim>\<open>time.sleep(1)\<close>: one tick each. In a round of the
  loop that reaches its wait, the wait makes at most \<open>interval\<close> sleeps and reads the date
  after each one; every reading before the last still showed the bucket's date, and a
  reading that shows another date ends the wait on the spot: if the reading after sleep
  number \<open>i + 1\<close> differs, no more than \<open>i + 1\<close> sleeps were made. The round that follows then
  starts with the dispatch of the finalizer, before anything else is recorded, provided the
  date it reads still differs.
\<close>

theorem date_change_ends_wait_within_one_tick:
  assumes body: "loop_body cfg sh now clock (d, w) = (None, rest, d', w')"
    and sleeps: "sleeps = length (filter (\<lambda>e. e = Sleep) (drop (length (events w)) (events w')))"
  shows "sleeps \<le> nat (interval d)
       \<and> rest = drop sleeps clock
       \<and> (\<forall>i<length clock. i < nat (interval d) \<longrightarrow> clock ! i \<noteq> now \<longrightarrow> sleeps \<le> i + 1)
       \<and> (\<forall>i. i + 1 < sleeps \<longrightarrow> clock ! i = now)
       \<and> current_day d' = now
       \<and> (\<forall>sh2 now2 clock2 r2 rest2 d2 w2.
             loop_body cfg sh2 now2 clock2 (d', w') = (r2, rest2, d2, w2) \<longrightarrow> now2 \<noteq> now \<longrightarrow>
               length (events w') < length (events w2)
               \<and> events w2 ! length (events w') = Finalize now (current_dir d'))"
proof -
  obtain k rest' where sp: "sleep_poll (nat (interval d)) now clock = (k, rest')"
    by (cases "sleep_poll (nat (interval d)) now clock")
  from loop_body_events(1)[OF body] obtain evs where
    ev: "events w' = events w @ (if now \<noteq> current_day d then [Finalize (current_day d) (current_dir d)] else []) @ evs"
    and nofin: "\<forall>e\<in>set evs. \<not> is_finalize e"
    and cnt: "length (filter (\<lambda>e. e = Sleep) evs) = (if None = (None::error option) then fst (sleep_poll (nat (interval d)) now clock) else 0)"
    by (elim exE conjE) (rule that)
  have "sleeps = k" using sleeps ev cnt sp by simp
  moreover have "rest = rest'"
  proof -
    obtain d1 w1 where roll: "rollover cfg now (d, w) = (d1, w1)" by (cases "rollover cfg now (d, w)")
    have d1: "current_day d1 = now" "interval d1 = interval d"
      using rollover_current_day[of cfg now "(d, w)"] rollover_interval[of cfg now "(d, w)"] roll by simp_all
    show ?thesis
    proof (cases "capture_frame sh (d1, w1)")
      case (Inl e)
      with body roll show ?thesis by (simp add: loop_body_def Let_def)
    next
      case (Inr s2)
      obtain d2 w2 where s2: "s2 = (d2, w2)" by (cases s2)
      with Inr have cap: "capture_frame sh (d1, w1) = Inr (d2, w2)" by simp
      have "current_day d2 = now" "interval d2 = interval d"
        using capture_frame_Inr(2,4)[OF cap] d1 by simp_all
      with body roll cap sp show ?thesis by (simp add: loop_body_def Let_def)
    qed
  qed
  ultimately have sp': "sleep_poll (nat (interval d)) now clock = (sleeps, rest)" using sp by simp
  have a: "sleeps \<le> nat (interval d)" "rest = drop sleeps clock"
    using sleep_poll_drop[OF sp'] by simp_all
  have b: "\<forall>i<length clock. i < nat (interval d) \<longrightarrow> clock ! i \<noteq> now \<longrightarrow> sleeps \<le> i + 1"
    using sleep_poll_early[OF sp'] by blast
  have c: "\<forall>i. i + 1 < sleeps \<longrightarrow> clock ! i = now"
    using sleep_poll_quiet[OF sp'] by blast
  have cur: "current_day d' = now" by (rule loop_body_events(2)[OF body])
  have e: "\<forall>sh2 now2 clock2 r2 rest2 d2 w2.
             loop_body cfg sh2 now2 clock2 (d', w') = (r2, rest2, d2, w2) \<longrightarrow> now2 \<noteq> now \<longrightarrow>
               length (events w') < length (events w2)
               \<and> events w2 ! length (events w') = Finalize now (current_dir d')"
  proof (intro allI impI)
    fix sh2 now2 clock2 r2 rest2 d2 w2
    assume next_body: "loop_body cfg sh2 now2 clock2 (d', w') = (r2, rest2, d2, w2)" and changed: "now2 \<noteq> now"
    from loop_body_events(1)[OF next_body] changed cur obtain evs2 where
      "events w2 = events w' @ Finalize now (current_dir d') # evs2"
      by auto
    then show "length (events w') < length (events w2)
               \<and> events w2 ! length (events w') = Finalize now (current_dir d')"
      using new_events_index by blast
  qed
  from a b c cur e show ?thesis by blast
qed

theorem date_change_ends_wait_within_one_tick_witness:
  "fst (loop_body cfg0 (good_shot ''a'') day1 [day2, day2] (daemon0, world0)) = None
   \<and> nat (interval daemon0) = 2
   \<and> [day2, day2] ! 0 \<noteq> day1
   \<and> length (filter (\<lambda>e. e = Sleep) (drop (length (events world0))
         (events (snd (snd (snd (loop_body cfg0 (good_shot ''a'') day1 [day2, day2] (daemon0, world0)))))))) = 1
   \<and> fst (snd (loop_body cfg0 (good_shot ''a'') day1 [day2, day2] (daemon0, world0))) = drop 1 [day2, day2]"
proof -
  let ?w' = "\<lparr>files = [[''data'', ''images'', ''2024-03-09'', ''000001.jpg''] \<mapsto> ''a''],
       dirs = {},
       events = [Imwrite [''data'', ''images'', ''2024-03-09'', ''000001.jpg''] True,
                 LogInfo ''Captured /data/images/2024-03-09/000001.jpg'', Sleep]\<rparr>"
  have ew: "events world0 = []" by (simp add: world0_def)
  have sleeps: "(1::nat) = length (filter (\<lambda>e. e = Sleep) (drop (length (events world0)) (events ?w')))"
    by (simp add: ew)
  note inst = date_change_ends_wait_within_one_tick[OF loop_body_example_wait sleeps]
  have rest: "[day2] = drop 1 [day2, day2]" by (rule inst[THEN conjunct2, THEN conjunct1])
  have a: "fst (loop_body cfg0 (good_shot ''a'') day1 [day2, day2] (daemon0, world0)) = None"
    by (simp add: loop_body_example_wait)
  have b: "nat (interval daemon0) = 2" by (simp add: daemon0_eval)
  have c: "[day2, day2] ! 0 \<noteq> day1" by simp
  have d: "length (filter (\<lambda>e. e = Sleep) (drop (length (events world0))
         (events (snd (snd (snd (loop_body cfg0 (good_shot ''a'') day1 [day2, day2] (daemon0, world0)))))))) = 1"
    by (simp add: loop_body_example_wait ew)
  have e: "fst (snd (loop_body cfg0 (good_shot ''a'') day1 [day2, day2] (daemon0, world0))) = drop 1 [day2, day2]"
    unfolding loop_body_example_wait fst_conv snd_conv by (rule rest)
  from a b c d e show ?thesis by (intro conjI)
qed

text \<open>
  Claim C10. The constructor sets \<open>seq\<close> to 1 whatever the day's directory holds and leaves
  every file as it is; the \<open>k\<close>-th successful capture after it then writes file number \<open>k\<close>,
  replacing a frame an earlier run of the same day left under that name, and no other file
  is touched.
\<close>

theorem restart_overwrites_from_one:
  assumes ok: "list_all successful shots"
  shows "seq (fst (init_daemon cfg today w)) = 1
         \<and> files (snd (init_daemon cfg today w)) = files w
         \<and> (\<exists>d' w'. capture_frames shots (init_daemon cfg today w) = (None, d', w')
               \<and> seq d' = 1 + length shots
               \<and> (\<forall>k<length shots. files w' (day_dir cfg today @ [frame_name (1 + k)]) = grabbed (shots ! k))
               \<and> (\<forall>p. (\<forall>k<length shots. p \<noteq> day_dir cfg today @ [frame_name (1 + k)]) \<longrightarrow> files w' p = files w p))"
proof -
  obtain d0 w0 where init: "init_daemon cfg today w = (d0, w0)" by (cases "init_daemon cfg today w")
  then have d0: "seq d0 = 1" "current_dir d0 = day_dir cfg today" and w0: "files w0 = files w"
    by (auto simp: init_daemon_def)
  from capture_frames_successful[OF ok, of d0 w0] d0 w0 init show ?thesis by auto
qed

theorem restart_overwrites_from_one_witness:
  "list_all successful [good_shot ''new'']
   \<and> seq (fst (init_daemon cfg0 day1 world_with_old_frames)) = 1
   \<and> files (snd (snd (capture_frames [good_shot ''new''] (init_daemon cfg0 day1 world_with_old_frames))))
        [''data'', ''images'', ''2024-03-09'', ''000001.jpg''] = Some ''new''
   \<and> files (snd (snd (capture_frames [good_shot ''new''] (init_daemon cfg0 day1 world_with_old_frames))))
        [''data'', ''images'', ''2024-03-09'', ''000002.jpg''] = Some ''old2''"
proof -
  have ok: "list_all successful [good_shot ''new'']" by simp
  have dir: "day_dir cfg0 day1 = [''data'', ''images'', ''2024-03-09'']"
    by (simp add: day_dir_def IMAGES_DIR_def cfg0_def isoformat_day1)
  from restart_overwrites_from_one[OF ok, of cfg0 day1 world_with_old_frames] obtain d' w' where
    one: "seq (fst (init_daemon cfg0 day1 world_with_old_frames)) = 1" and
    run: "capture_frames [good_shot ''new''] (init_daemon cfg0 day1 world_with_old_frames) = (None, d', w')" and
    hit: "\<forall>k<length [good_shot ''new'']. files w' (day_dir cfg0 day1 @ [frame_name (1 + k)]) = grabbed ([good_shot ''new''] ! k)" and
    miss: "\<forall>p. (\<forall>k<length [good_shot ''new'']. p \<noteq> day_dir cfg0 day1 @ [frame_name (1 + k)]) \<longrightarrow> files w' p = files world_with_old_frames p"
    by (elim exE conjE) (rule that)
  from hit have a: "files w' [''data'', ''images'', ''2024-03-09'', ''000001.jpg''] = Some ''new''"
    by (simp add: dir frame_name_Suc_0 good_shot_def)
  from miss have "files w' [''data'', ''images'', ''2024-03-09'', ''000002.jpg'']
        = files world_with_old_frames [''data'', ''images'', ''2024-03-09'', ''000002.jpg'']"
    by (simp add: dir frame_name_Suc_0)
  then have b: "files w' [''data'', ''images'', ''2024-03-09'', ''000002.jpg''] = Some ''old2''"
    by (simp add: world_with_old_frames_def)
  show ?thesis
    unfolding run snd_conv using ok one a b by (intro conjI)
qed

end
